theory Spec2Isabelle
  imports Complex_Main "HOL-Library.AList"
begin

section \<open>Trust ledger (blockchain.py)\<close>

text \<open>
  Python floats are modelled as reals and \<open>time.time()\<close> as an extra argument of
  every operation that reads the clock. A payload is a JSON value.
\<close>

datatype json =
    JNull
  | JBool bool
  | JInt int
  | JNum real
  | JStr string
  | JList "json list"
  | JDict "(string \<times> json) list"

text \<open>
  The digest \<open>hashlib.sha256(json.dumps(d, sort_keys=True).encode()).hexdigest()\<close>
  is library code; it is a parameter \<open>dg\<close> of the model, applied to the dictionary
  that the source serialises.
\<close>

type_synonym digest = "json \<Rightarrow> string"

record Block =
  index :: int
  timestamp :: real
  data :: json
  previous_hash :: string
  hash :: string

text \<open>
  \<open>Block.calculate_hash\<close> serialises \<open>self.__dict__\<close>. Inside \<open>__init__\<close> the
  attribute \<open>hash\<close> has not been assigned yet, so the dictionary holds four entries
  (\<open>dict_in_init\<close>); on a constructed block it holds five (\<open>obj_dict\<close>).
\<close>

definition dict_in_init :: "int \<Rightarrow> real \<Rightarrow> json \<Rightarrow> string \<Rightarrow> (string \<times> json) list" where
  "dict_in_init i t d p =
     [(''index'', JInt i), (''timestamp'', JNum t), (''data'', d), (''previous_hash'', JStr p)]"

definition obj_dict :: "Block \<Rightarrow> (string \<times> json) list" where
  "obj_dict b =
     dict_in_init (index b) (timestamp b) (data b) (previous_hash b) @ [(''hash'', JStr (hash b))]"

definition calculate_hash :: "digest \<Rightarrow> (string \<times> json) list \<Rightarrow> string" where
  "calculate_hash dg self_dict = dg (JDict self_dict)"

definition Block_init :: "digest \<Rightarrow> int \<Rightarrow> real \<Rightarrow> json \<Rightarrow> string \<Rightarrow> Block" where
  "Block_init dg i t d p =
     \<lparr>index = i, timestamp = t, data = d, previous_hash = p,
      hash = calculate_hash dg (dict_in_init i t d p)\<rparr>"

record Blockchain =
  chain :: "Block list"
  malicious_vehicles :: "string set"

definition create_genesis_block :: "digest \<Rightarrow> real \<Rightarrow> Block" where
  "create_genesis_block dg t =
     Block_init dg 0 t (JDict [(''message'', JStr ''Genesis Block'')]) ''0''"

definition Blockchain_init :: "digest \<Rightarrow> real \<Rightarrow> Blockchain" where
  "Blockchain_init dg t = \<lparr>chain = [create_genesis_block dg t], malicious_vehicles = {}\<rparr>"

text \<open>\<open>self.chain[-1]\<close> raises IndexError on an empty list: \<open>None\<close>.\<close>

definition get_latest_block :: "Blockchain \<Rightarrow> Block option" where
  "get_latest_block bc = (if chain bc = [] then None else Some (last (chain bc)))"

definition add_block :: "digest \<Rightarrow> json \<Rightarrow> real \<Rightarrow> Blockchain \<Rightarrow> Blockchain option" where
  "add_block dg d t bc =
     (case get_latest_block bc of
        None \<Rightarrow> None
      | Some previous_block \<Rightarrow>
          Some (bc\<lparr>chain := chain bc @
                  [Block_init dg (index previous_block + 1) t d (hash previous_block)]\<rparr>))"

fun valid_from :: "digest \<Rightarrow> Block \<Rightarrow> Block list \<Rightarrow> bool" where
  "valid_from dg previous_block [] = True"
| "valid_from dg previous_block (current_block # rest) =
     (if hash current_block \<noteq> calculate_hash dg (obj_dict current_block) then False
      else if previous_hash current_block \<noteq> hash previous_block then False
      else valid_from dg current_block rest)"

definition is_chain_valid :: "digest \<Rightarrow> Blockchain \<Rightarrow> bool" where
  "is_chain_valid dg bc =
     (case chain bc of [] \<Rightarrow> True | genesis # rest \<Rightarrow> valid_from dg genesis rest)"

text \<open>
  The three recording operations build their payload (reading the clock once, \<open>tp\<close>)
  and call \<open>add_block\<close> (which reads it again, \<open>tb\<close>).
\<close>

definition add_malicious_vehicle ::
  "digest \<Rightarrow> string \<Rightarrow> real \<Rightarrow> real \<Rightarrow> Blockchain \<Rightarrow> Blockchain option" where
  "add_malicious_vehicle dg vehicle_id tp tb bc =
     add_block dg
       (JDict [(''type'', JStr ''malicious_vehicle''), (''vehicle_id'', JStr vehicle_id),
               (''timestamp'', JNum tp)])
       tb
       (bc\<lparr>malicious_vehicles := insert vehicle_id (malicious_vehicles bc)\<rparr>)"

definition get_malicious_vehicles :: "Blockchain \<Rightarrow> string set" where
  "get_malicious_vehicles bc = malicious_vehicles bc"

definition record_vehicle_data ::
  "digest \<Rightarrow> string \<Rightarrow> json \<Rightarrow> real \<Rightarrow> real \<Rightarrow> string \<Rightarrow> real \<Rightarrow> real \<Rightarrow> Blockchain
   \<Rightarrow> Blockchain option" where
  "record_vehicle_data dg vehicle_id loc spd dir message tp tb bc =
     add_block dg
       (JDict [(''type'', JStr ''vehicle_data''), (''vehicle_id'', JStr vehicle_id),
               (''location'', loc), (''speed'', JNum spd), (''direction'', JNum dir),
               (''message'', JStr message), (''timestamp'', JNum tp)])
       tb bc"

definition record_rsu_data ::
  "digest \<Rightarrow> string \<Rightarrow> string list \<Rightarrow> json \<Rightarrow> real \<Rightarrow> real \<Rightarrow> Blockchain \<Rightarrow> Blockchain option" where
  "record_rsu_data dg rsu_id connected_ids traffic tp tb bc =
     add_block dg
       (JDict [(''type'', JStr ''rsu_data''), (''rsu_id'', JStr rsu_id),
               (''connected_vehicles'', JList (map JStr connected_ids)),
               (''traffic_data'', traffic), (''timestamp'', JNum tp)])
       tb bc"

text \<open>A sequence of appends, as a caller issues them.\<close>

datatype ledger_op =
    Add_block json real
  | Add_malicious_vehicle string real real
  | Record_vehicle_data string json real real string real real
  | Record_rsu_data string "string list" json real real

fun apply_op :: "digest \<Rightarrow> ledger_op \<Rightarrow> Blockchain \<Rightarrow> Blockchain option" where
  "apply_op dg (Add_block d t) bc = add_block dg d t bc"
| "apply_op dg (Add_malicious_vehicle v tp tb) bc = add_malicious_vehicle dg v tp tb bc"
| "apply_op dg (Record_vehicle_data v loc spd dir m tp tb) bc =
     record_vehicle_data dg v loc spd dir m tp tb bc"
| "apply_op dg (Record_rsu_data r cs tr tp tb) bc = record_rsu_data dg r cs tr tp tb bc"

fun apply_ops :: "digest \<Rightarrow> ledger_op list \<Rightarrow> Blockchain \<Rightarrow> Blockchain option" where
  "apply_ops dg [] bc = Some bc"
| "apply_ops dg (op # ops) bc =
     (case apply_op dg op bc of None \<Rightarrow> None | Some bc' \<Rightarrow> apply_ops dg ops bc')"

text \<open>
  The chain invariant: linkage and consecutive indices for every \<open>i > 0\<close>, and every
  stored hash is the digest of the dictionary of the block's other four fields (index,
  timestamp, data, previous hash), written out here.
\<close>

definition chain_inv :: "digest \<Rightarrow> Block list \<Rightarrow> bool" where
  "chain_inv dg c \<longleftrightarrow>
     (\<forall>i. 0 < i \<and> i < length c \<longrightarrow>
        previous_hash (c ! i) = hash (c ! (i - 1)) \<and> index (c ! i) = index (c ! (i - 1)) + 1) \<and>
     (\<forall>i. i < length c \<longrightarrow>
        hash (c ! i) =
          dg (JDict [(''index'', JInt (index (c ! i))),
                     (''timestamp'', JNum (timestamp (c ! i))),
                     (''data'', data (c ! i)),
                     (''previous_hash'', JStr (previous_hash (c ! i)))]))"

text \<open>
  A stand-in digest for evaluating the model at concrete inputs. It is not SHA-256: it
  only tells dictionaries apart by their keys.
\<close>

fun sample_digest :: digest where
  "sample_digest (JDict kvs) = concat (map fst kvs)"
| "sample_digest other = []"

section \<open>Configuration (config.py) and geometry\<close>

definition NETWORK_LENGTH :: nat where "NETWORK_LENGTH = 3000"
definition NETWORK_WIDTH :: nat where "NETWORK_WIDTH = 3000"
definition VEHICLE_MIN_VELOCITY :: real where "VEHICLE_MIN_VELOCITY = 60"
definition VEHICLE_MAX_VELOCITY :: real where "VEHICLE_MAX_VELOCITY = 100"
definition MAX_VEHICLES :: real where "MAX_VEHICLES = 101"
definition MAX_V2V_RANGE :: real where "MAX_V2V_RANGE = 300"

text \<open>A location is the dictionary \<open>{'x': .., 'y': ..}\<close>.\<close>

record location =
  px :: real
  py :: real

text \<open>
  \<open>_distance\<close> is the same static method in all three routers; the RSU writes the
  same expression inline.
\<close>

definition distance :: "location \<Rightarrow> location \<Rightarrow> real" where
  "distance point1 point2 =
     sqrt ((px point1 - px point2)\<^sup>2 + (py point1 - py point2)\<^sup>2)"

section \<open>Anomaly detection at a roadside unit (rsu.py)\<close>

text \<open>
  A neighbour snapshot as the routers read it has a location and a speed. A beacon
  received by an RSU may also carry the key \<open>sees_accident\<close>. What the RSU stores is
  \<open>{**data, 'timestamp': current_time, 'port': addr[1]}\<close>; the key \<open>timestamp\<close> of the
  stored entry is the field \<open>rx_timestamp\<close>. The other keys of a beacon are copied
  along and never read by the detector.
\<close>

record vehicle_data =
  location :: location
  speed :: real

record beacon = vehicle_data +
  sees_accident :: "bool option"

record tracked = beacon +
  rx_timestamp :: real
  port :: nat

record RSU =
  blockchain :: Blockchain
  connected_vehicles :: "(string \<times> tracked) list"
  suspicious_count :: "string \<rightharpoonup> nat"

definition get_nearby_vehicles :: "RSU \<Rightarrow> location \<Rightarrow> real \<Rightarrow> (string \<times> tracked) list" where
  "get_nearby_vehicles rsu loc range_limit =
     filter (\<lambda>(vid, vdata).
        vid \<notin> get_malicious_vehicles (blockchain rsu) \<and>
        distance loc (location vdata) \<le> range_limit)
       (connected_vehicles rsu)"

text \<open>
  \<open>nearby_reports\<close>: the flags of the nearby stored entries that have one and whose
  stored timestamp is later than \<open>current_time - 2\<close>.
\<close>

definition nearby_reports :: "RSU \<Rightarrow> beacon \<Rightarrow> real \<Rightarrow> bool list" where
  "nearby_reports rsu d current_time =
     List.map_filter
       (\<lambda>(vid, v). if rx_timestamp v > current_time - 2 then sees_accident v else None)
       (get_nearby_vehicles rsu (location d) 300)"

text \<open>\<open>sum(nearby_reports) > len(nearby_reports) / 2\<close>\<close>

definition majority_report :: "bool list \<Rightarrow> bool" where
  "majority_report reports \<longleftrightarrow>
     real (length (filter (\<lambda>r. r) reports)) > real (length reports) / 2"

text \<open>The four checks of \<open>_update_vehicle_data\<close>, in the order of the source.\<close>

definition impossible_speed :: "beacon \<Rightarrow> bool" where
  "impossible_speed d \<longleftrightarrow> speed d > VEHICLE_MAX_VELOCITY * 1.5"

definition impossible_movement :: "tracked \<Rightarrow> beacon \<Rightarrow> real \<Rightarrow> bool" where
  "impossible_movement prev_data d time_diff =
     (let max_distance = (speed prev_data * 1000 / 3600) * time_diff * 1.2;
          actual_distance =
            sqrt ((px (location d) - px (location prev_data))\<^sup>2 +
                  (py (location d) - py (location prev_data))\<^sup>2)
      in actual_distance > max_distance)"

definition outside_bounds :: "beacon \<Rightarrow> bool" where
  "outside_bounds d \<longleftrightarrow>
     px (location d) < - 10 \<or> px (location d) > real NETWORK_LENGTH + 10 \<or>
     py (location d) < - 10 \<or> py (location d) > real NETWORK_WIDTH + 10"

definition inconsistent_report :: "RSU \<Rightarrow> beacon \<Rightarrow> real \<Rightarrow> bool" where
  "inconsistent_report rsu d current_time =
     (case sees_accident d of
        None \<Rightarrow> False
      | Some flag \<Rightarrow>
          (let reports = nearby_reports rsu d current_time
           in reports \<noteq> [] \<and> flag \<noteq> majority_report reports))"

definition is_suspicious :: "RSU \<Rightarrow> tracked \<Rightarrow> beacon \<Rightarrow> real \<Rightarrow> bool" where
  "is_suspicious rsu prev_data d current_time \<longleftrightarrow>
     impossible_speed d \<or>
     impossible_movement prev_data d (current_time - rx_timestamp prev_data) \<or>
     outside_bounds d \<or>
     inconsistent_report rsu d current_time"

text \<open>\<open>self.suspicious_count.get(vehicle_id, 0)\<close>\<close>

definition suspicious_count_get :: "RSU \<Rightarrow> string \<Rightarrow> nat" where
  "suspicious_count_get rsu vehicle_id =
     (case suspicious_count rsu vehicle_id of None \<Rightarrow> 0 | Some c \<Rightarrow> c)"

definition stored_entry :: "beacon \<Rightarrow> real \<Rightarrow> nat \<Rightarrow> tracked" where
  "stored_entry d current_time p =
     \<lparr>location = location d, speed = speed d, sees_accident = sees_accident d,
      rx_timestamp = current_time, port = p\<rparr>"

definition store_vehicle :: "string \<Rightarrow> beacon \<Rightarrow> real \<Rightarrow> nat \<Rightarrow> RSU \<Rightarrow> RSU" where
  "store_vehicle vehicle_id d current_time p rsu =
     rsu\<lparr>connected_vehicles :=
           AList.update vehicle_id (stored_entry d current_time p) (connected_vehicles rsu)\<rparr>"

text \<open>
  \<open>_update_vehicle_data\<close>. The clock is read at entry (\<open>current_time\<close>) and twice more
  when a marking block is written (\<open>tp\<close>, \<open>tb\<close>). The result is \<open>None\<close> when the
  ledger raises.
\<close>

definition update_vehicle_data ::
  "digest \<Rightarrow> string \<Rightarrow> beacon \<Rightarrow> nat \<Rightarrow> real \<Rightarrow> real \<Rightarrow> real \<Rightarrow> RSU \<Rightarrow> RSU option" where
  "update_vehicle_data dg vehicle_id d p current_time tp tb rsu =
     (if vehicle_id \<in> get_malicious_vehicles (blockchain rsu) then Some rsu
      else
        (case map_of (connected_vehicles rsu) vehicle_id of
           None \<Rightarrow> Some (store_vehicle vehicle_id d current_time p rsu)
         | Some prev_data \<Rightarrow>
             (if current_time - rx_timestamp prev_data > 0 \<and>
                 is_suspicious rsu prev_data d current_time
              then
                (let count = suspicious_count_get rsu vehicle_id + 1;
                     rsu1 = rsu\<lparr>suspicious_count := (suspicious_count rsu)(vehicle_id \<mapsto> count)\<rparr>
                 in if count \<ge> 3 then
                      (case add_malicious_vehicle dg vehicle_id tp tb (blockchain rsu1) of
                         None \<Rightarrow> None
                       | Some bc' \<Rightarrow>
                           Some (rsu1\<lparr>blockchain := bc',
                                      connected_vehicles :=
                                        AList.delete vehicle_id (connected_vehicles rsu1)\<rparr>))
                    else Some (store_vehicle vehicle_id d current_time p rsu1))
              else Some (store_vehicle vehicle_id d current_time p rsu))))"

text \<open>
  Following the specification's wording rather than the source: the recent
  accident-visibility reports of nearby vehicles other than the reporting one.
\<close>

definition reports_of_others :: "RSU \<Rightarrow> string \<Rightarrow> beacon \<Rightarrow> real \<Rightarrow> bool list" where
  "reports_of_others rsu vehicle_id d current_time =
     List.map_filter
       (\<lambda>(vid, v). if rx_timestamp v > current_time - 2 then sees_accident v else None)
       (filter (\<lambda>(vid, v). vid \<noteq> vehicle_id) (get_nearby_vehicles rsu (location d) 300))"

text \<open>
  A scenario for evaluating the detector: one RSU on a fresh ledger that tracks vehicle
  \<open>V1\<close>, last seen at time 0 at the origin with speed 80 km/h, with \<open>n\<close> suspicious
  events on record.
\<close>

definition scenario_prev :: tracked where
  "scenario_prev =
     \<lparr>location = \<lparr>px = 0, py = 0\<rparr>, speed = 80, sees_accident = None,
      rx_timestamp = 0, port = 5000\<rparr>"

definition scenario_rsu :: "nat \<Rightarrow> RSU" where
  "scenario_rsu n =
     \<lparr>blockchain = Blockchain_init sample_digest 0,
      connected_vehicles = [(''V1'', scenario_prev)],
      suspicious_count = [''V1'' \<mapsto> n]\<rparr>"

definition scenario_beacon :: "real \<Rightarrow> real \<Rightarrow> beacon" where
  "scenario_beacon x_pos spd =
     \<lparr>location = \<lparr>px = x_pos, py = 0\<rparr>, speed = spd, sees_accident = None\<rparr>"

text \<open>
  Two more scenarios for the peer-consensus check: \<open>peer_rsu\<close> tracks \<open>V1\<close> (no flag
  on record) and one peer \<open>V2\<close> that reported an accident at time 0; \<open>own_rsu\<close> tracks
  only \<open>V1\<close>, whose own stored entry carries a flag.
\<close>

definition peer_rsu :: RSU where
  "peer_rsu =
     \<lparr>blockchain = Blockchain_init sample_digest 0,
      connected_vehicles =
        [(''V1'', scenario_prev),
         (''V2'', \<lparr>location = \<lparr>px = 0, py = 0\<rparr>, speed = 80, sees_accident = Some True,
                   rx_timestamp = 0, port = 5001\<rparr>)],
      suspicious_count = Map.empty\<rparr>"

definition own_rsu :: RSU where
  "own_rsu =
     \<lparr>blockchain = Blockchain_init sample_digest 0,
      connected_vehicles =
        [(''V1'', \<lparr>location = \<lparr>px = 0, py = 0\<rparr>, speed = 80, sees_accident = Some True,
                   rx_timestamp = 0, port = 5000\<rparr>)],
      suspicious_count = Map.empty\<rparr>"

definition denying_beacon :: beacon where
  "denying_beacon = \<lparr>location = \<lparr>px = 10, py = 0\<rparr>, speed = 80, sees_accident = Some False\<rparr>"

text \<open>
  A beacon from (22,0) with a plausible speed that denies the accident, and the same
  place with an implausible speed.
\<close>

definition slow_denying_beacon :: beacon where
  "slow_denying_beacon = \<lparr>location = \<lparr>px = 22, py = 0\<rparr>, speed = 79, sees_accident = Some False\<rparr>"

definition own_prev :: tracked where
  "own_prev =
     \<lparr>location = \<lparr>px = 0, py = 0\<rparr>, speed = 80, sees_accident = Some True,
      rx_timestamp = 0, port = 5000\<rparr>"

section \<open>Routing strategies (algorithms/tmr.py, gytar.py, aodv.py)\<close>

text \<open>
  The neighbour dictionary is an association list in insertion order. A route is a list
  of locations. The cache key \<open>"sx,sy->dx,dy"\<close> is the pair of its two locations.
  \<open>traffic_data.get('congestion_level', 0)\<close> reads an optional entry.
  A running maximum that starts at \<open>float('-inf')\<close> is a \<open>real option\<close> with \<open>None\<close>
  for minus infinity.
\<close>

type_synonym vehicles = "(string \<times> vehicle_data) list"
type_synonym route = "location list"
type_synonym route_key = "location \<times> location"

record traffic_data =
  congestion_level :: "real option"

definition get_congestion :: "traffic_data \<Rightarrow> real" where
  "get_congestion td = (case congestion_level td of None \<Rightarrow> 0 | Some c \<Rightarrow> c)"

definition exceeds :: "real \<Rightarrow> real option \<Rightarrow> bool" where
  "exceeds score best_score = (case best_score of None \<Rightarrow> True | Some b \<Rightarrow> score > b)"

definition is_forward_progress :: "location \<Rightarrow> location \<Rightarrow> location \<Rightarrow> bool" where
  "is_forward_progress current next_hop destination \<longleftrightarrow>
     distance next_hop destination < distance current destination"

text \<open>
  The range property of a path: every consecutive pair of waypoints, except possibly
  the last pair, lies within \<open>MAX_V2V_RANGE\<close>.
\<close>

definition hops_in_range :: "route \<Rightarrow> bool" where
  "hops_in_range r \<longleftrightarrow>
     (\<forall>i. i + 2 < length r \<longrightarrow> distance (r ! i) (r ! (i + 1)) \<le> MAX_V2V_RANGE)"

text \<open>The stronger property that every consecutive pair, the last included, is in range.\<close>

fun every_hop_in_range :: "route \<Rightarrow> bool" where
  "every_hop_in_range (a # b # rest) \<longleftrightarrow>
     distance a b \<le> MAX_V2V_RANGE \<and> every_hop_in_range (b # rest)"
| "every_hop_in_range r \<longleftrightarrow> True"

subsection \<open>TMR: greedy forward progress\<close>

record TMRRouter =
  tmr_route_cache :: "(route_key \<times> route) list"

definition calculate_hop_score ::
  "location \<Rightarrow> location \<Rightarrow> location \<Rightarrow> real \<Rightarrow> real \<Rightarrow> real" where
  "calculate_hop_score current next_hop destination spd congestion =
     (let progress = distance current destination - distance next_hop destination;
          speed_factor = (spd - VEHICLE_MIN_VELOCITY) / (VEHICLE_MAX_VELOCITY - VEHICLE_MIN_VELOCITY);
          congestion_penalty = 1 - congestion
      in 0.5 * progress + 0.3 * speed_factor + 0.2 * congestion_penalty)"

definition find_next_hop_step ::
  "location \<Rightarrow> location \<Rightarrow> traffic_data \<Rightarrow> string \<times> vehicle_data
   \<Rightarrow> real option \<times> location option \<Rightarrow> real option \<times> location option" where
  "find_next_hop_step current_pos destination td entry best =
     (if is_forward_progress current_pos (location (snd entry)) destination then
        (let score = calculate_hop_score current_pos (location (snd entry)) destination
                       (speed (snd entry)) (get_congestion td)
         in if exceeds score (fst best) then (Some score, Some (location (snd entry))) else best)
      else best)"

definition find_next_hop ::
  "location \<Rightarrow> location \<Rightarrow> vehicles \<Rightarrow> traffic_data \<Rightarrow> location option" where
  "find_next_hop current_pos destination vs td =
     snd (fold (find_next_hop_step current_pos destination td) vs (None, None))"

text \<open>The \<open>while\<close> loop of \<open>TMRRouter.find_route\<close>; \<open>None\<close> is a loop that never ends.\<close>

partial_function (option) tmr_route_loop ::
  "location \<Rightarrow> vehicles \<Rightarrow> traffic_data \<Rightarrow> location \<Rightarrow> route \<Rightarrow> route option" where
  "tmr_route_loop destination vs td current_pos r =
     (if distance current_pos destination > 100 then
        (case find_next_hop current_pos destination vs td of
           None \<Rightarrow> Some r
         | Some next_hop \<Rightarrow> tmr_route_loop destination vs td next_hop (r @ [next_hop]))
      else Some r)"

definition tmr_find_route ::
  "TMRRouter \<Rightarrow> location \<Rightarrow> location \<Rightarrow> vehicles \<Rightarrow> traffic_data
   \<Rightarrow> (route \<times> TMRRouter) option" where
  "tmr_find_route router source_location destination_location vs td =
     (case map_of (tmr_route_cache router) (source_location, destination_location) of
        Some cached \<Rightarrow> Some (cached, router)
      | None \<Rightarrow>
          (case tmr_route_loop destination_location vs td source_location [source_location] of
             None \<Rightarrow> None
           | Some r \<Rightarrow>
               Some (r @ [destination_location],
                     router\<lparr>tmr_route_cache :=
                       AList.update (source_location, destination_location)
                         (r @ [destination_location]) (tmr_route_cache router)\<rparr>)))"

definition tmr_update_traffic :: "TMRRouter \<Rightarrow> traffic_data \<Rightarrow> TMRRouter" where
  "tmr_update_traffic router td =
     (if length (tmr_route_cache router) > 100 then router\<lparr>tmr_route_cache := []\<rparr>
      else router)"

subsection \<open>GyTAR: junction-based greedy\<close>

record GyTARRouter =
  gytar_route_cache :: "(route_key \<times> route) list"

text \<open>\<open>range(0, stop, step)\<close>\<close>

definition range_step :: "nat \<Rightarrow> nat \<Rightarrow> nat list" where
  "range_step stop step = map (\<lambda>k. k * step) [0 ..< (stop + step - 1) div step]"

definition get_potential_junctions :: "location \<Rightarrow> location list" where
  "get_potential_junctions current_pos =
     filter (\<lambda>j. distance current_pos j \<le> MAX_V2V_RANGE)
       (concat (map (\<lambda>gx. map (\<lambda>gy. \<lparr>px = real gx, py = real gy\<rparr>)
                              (range_step NETWORK_WIDTH 500))
                    (range_step NETWORK_LENGTH 500)))"

definition calculate_traffic_density :: "location \<Rightarrow> vehicles \<Rightarrow> real" where
  "calculate_traffic_density junction vs =
     (let max_vehicles = MAX_VEHICLES * 0.1;
          vehicles_in_range =
            length (filter (\<lambda>entry. distance junction (location (snd entry)) \<le> MAX_V2V_RANGE) vs)
      in min 1 (real vehicles_in_range / max_vehicles))"

text \<open>
  The division by \<open>current_to_dest\<close> is reached only inside the loop of \<open>find_route\<close>,
  where that distance exceeds 100.
\<close>

definition calculate_junction_score ::
  "location \<Rightarrow> location \<Rightarrow> location \<Rightarrow> vehicles \<Rightarrow> traffic_data \<Rightarrow> real" where
  "calculate_junction_score current_pos junction destination vs td =
     (let current_to_dest = distance current_pos destination;
          junction_to_dest = distance junction destination;
          direction_score = (current_to_dest - junction_to_dest) / current_to_dest;
          density_score = calculate_traffic_density junction vs;
          congestion_score = 1 - get_congestion td
      in 0.4 * direction_score + 0.4 * density_score + 0.2 * congestion_score)"

definition find_next_junction_step ::
  "location \<Rightarrow> location \<Rightarrow> vehicles \<Rightarrow> traffic_data \<Rightarrow> location
   \<Rightarrow> real option \<times> location option \<Rightarrow> real option \<times> location option" where
  "find_next_junction_step current_pos destination vs td junction best =
     (let score = calculate_junction_score current_pos junction destination vs td
      in if exceeds score (fst best) then (Some score, Some junction) else best)"

definition find_next_junction ::
  "location \<Rightarrow> location \<Rightarrow> vehicles \<Rightarrow> traffic_data \<Rightarrow> location option" where
  "find_next_junction current_pos destination vs td =
     snd (fold (find_next_junction_step current_pos destination vs td)
            (get_potential_junctions current_pos) (None, None))"

definition calculate_vehicle_hop_score ::
  "location \<Rightarrow> location \<Rightarrow> location \<Rightarrow> real \<Rightarrow> real" where
  "calculate_vehicle_hop_score current next_hop target spd =
     (let progress = distance current target - distance next_hop target;
          speed_factor = (spd - VEHICLE_MIN_VELOCITY) / (VEHICLE_MAX_VELOCITY - VEHICLE_MIN_VELOCITY)
      in 0.7 * progress + 0.3 * speed_factor)"

definition find_next_vehicle_hop_step ::
  "location \<Rightarrow> location \<Rightarrow> string \<times> vehicle_data
   \<Rightarrow> real option \<times> location option \<Rightarrow> real option \<times> location option" where
  "find_next_vehicle_hop_step current target entry best =
     (if is_forward_progress current (location (snd entry)) target then
        (let score = calculate_vehicle_hop_score current (location (snd entry)) target
                       (speed (snd entry))
         in if exceeds score (fst best) then (Some score, Some (location (snd entry))) else best)
      else best)"

definition find_next_vehicle_hop :: "location \<Rightarrow> location \<Rightarrow> vehicles \<Rightarrow> location option" where
  "find_next_vehicle_hop current target vs =
     snd (fold (find_next_vehicle_hop_step current target) vs (None, None))"

partial_function (option) path_to_junction_loop ::
  "location \<Rightarrow> vehicles \<Rightarrow> location \<Rightarrow> route \<Rightarrow> route option" where
  "path_to_junction_loop junction vs current path =
     (if distance current junction > 100 then
        (case find_next_vehicle_hop current junction vs of
           None \<Rightarrow> Some path
         | Some next_hop \<Rightarrow> path_to_junction_loop junction vs next_hop (path @ [next_hop]))
      else Some path)"

definition find_path_to_junction :: "location \<Rightarrow> location \<Rightarrow> vehicles \<Rightarrow> route option" where
  "find_path_to_junction start junction vs =
     (case path_to_junction_loop junction vs start [start] of
        None \<Rightarrow> None
      | Some path \<Rightarrow> Some (path @ [junction]))"

partial_function (option) gytar_route_loop ::
  "location \<Rightarrow> vehicles \<Rightarrow> traffic_data \<Rightarrow> location \<Rightarrow> route \<Rightarrow> route option" where
  "gytar_route_loop destination vs td current_pos r =
     (if distance current_pos destination > 100 then
        (case find_next_junction current_pos destination vs td of
           None \<Rightarrow> Some r
         | Some next_junction \<Rightarrow>
             (case find_path_to_junction current_pos next_junction vs of
                None \<Rightarrow> None
              | Some path_to_junction \<Rightarrow>
                  gytar_route_loop destination vs td next_junction (r @ path_to_junction)))
      else Some r)"

definition gytar_find_route ::
  "GyTARRouter \<Rightarrow> location \<Rightarrow> location \<Rightarrow> vehicles \<Rightarrow> traffic_data
   \<Rightarrow> (route \<times> GyTARRouter) option" where
  "gytar_find_route router source_location destination_location vs td =
     (case map_of (gytar_route_cache router) (source_location, destination_location) of
        Some cached \<Rightarrow> Some (cached, router)
      | None \<Rightarrow>
          (case gytar_route_loop destination_location vs td source_location [source_location] of
             None \<Rightarrow> None
           | Some r \<Rightarrow>
               Some (r @ [destination_location],
                     router\<lparr>gytar_route_cache :=
                       AList.update (source_location, destination_location)
                         (r @ [destination_location]) (gytar_route_cache router)\<rparr>)))"

definition gytar_update_traffic :: "GyTARRouter \<Rightarrow> traffic_data \<Rightarrow> GyTARRouter" where
  "gytar_update_traffic router td =
     (if length (gytar_route_cache router) > 100 then router\<lparr>gytar_route_cache := []\<rparr>
      else router)"

subsection \<open>AODV: flood discovery\<close>

record AODVRouter =
  aodv_route_cache :: "(route_key \<times> route) list"

text \<open>
  \<open>_location_to_key\<close> formats the two coordinates; the visited set holds the locations
  themselves. The key of a discovered route is the route.
\<close>

definition expand_step ::
  "location \<Rightarrow> route \<Rightarrow> string \<times> vehicle_data
   \<Rightarrow> (location \<times> route) list \<times> location set \<Rightarrow> (location \<times> route) list \<times> location set" where
  "expand_step current path entry st =
     (let vehicle_loc = location (snd entry)
      in if vehicle_loc \<notin> snd st \<and> distance current vehicle_loc \<le> MAX_V2V_RANGE
         then (fst st @ [(vehicle_loc, path @ [vehicle_loc])], insert vehicle_loc (snd st))
         else st)"

partial_function (option) discover_loop ::
  "location \<Rightarrow> vehicles \<Rightarrow> (location \<times> route) list \<Rightarrow> location set
   \<Rightarrow> (route \<times> route) list \<Rightarrow> (route \<times> route) list option" where
  "discover_loop destination vs queue visited discovered_routes =
     (case queue of
        [] \<Rightarrow> Some discovered_routes
      | entry # rest \<Rightarrow>
          (if distance (fst entry) destination \<le> MAX_V2V_RANGE then
             discover_loop destination vs rest visited
               (AList.update (snd entry @ [destination]) (snd entry @ [destination])
                  discovered_routes)
           else
             discover_loop destination vs
               (fst (fold (expand_step (fst entry) (snd entry)) vs (rest, visited)))
               (snd (fold (expand_step (fst entry) (snd entry)) vs (rest, visited)))
               discovered_routes))"

text \<open>\<open>min_distance\<close> starts at \<open>float('inf')\<close>: \<open>None\<close>.\<close>

definition find_nearest_vehicle_step ::
  "location \<Rightarrow> string \<times> vehicle_data
   \<Rightarrow> real option \<times> vehicle_data option \<Rightarrow> real option \<times> vehicle_data option" where
  "find_nearest_vehicle_step loc entry best =
     (let d = distance loc (location (snd entry))
      in if (case fst best of None \<Rightarrow> True | Some min_distance \<Rightarrow> d < min_distance)
         then (Some d, Some (snd entry)) else best)"

definition find_nearest_vehicle :: "location \<Rightarrow> vehicles \<Rightarrow> vehicle_data option" where
  "find_nearest_vehicle loc vs = snd (fold (find_nearest_vehicle_step loc) vs (None, None))"

definition calculate_link_stability :: "real \<Rightarrow> real \<Rightarrow> real \<Rightarrow> real" where
  "calculate_link_stability speed1 speed2 d =
     (let speed1_norm = (speed1 - VEHICLE_MIN_VELOCITY) / (VEHICLE_MAX_VELOCITY - VEHICLE_MIN_VELOCITY);
          speed2_norm = (speed2 - VEHICLE_MIN_VELOCITY) / (VEHICLE_MAX_VELOCITY - VEHICLE_MIN_VELOCITY);
          speed_diff = \<bar>speed1_norm - speed2_norm\<bar>;
          speed_factor = 1 - speed_diff;
          distance_factor = 1 - d / MAX_V2V_RANGE
      in 0.5 * speed_factor + 0.5 * distance_factor)"

fun stability_scores :: "route \<Rightarrow> vehicles \<Rightarrow> real list" where
  "stability_scores (current # next_hop # rest) vs =
     (case find_nearest_vehicle current vs of
        None \<Rightarrow> []
      | Some current_vehicle \<Rightarrow>
          (case find_nearest_vehicle next_hop vs of
             None \<Rightarrow> []
           | Some next_vehicle \<Rightarrow>
               [calculate_link_stability (speed current_vehicle) (speed next_vehicle)
                  (distance current next_hop)]))
     @ stability_scores (next_hop # rest) vs"
| "stability_scores r vs = []"

definition calculate_route_stability :: "route \<Rightarrow> vehicles \<Rightarrow> real" where
  "calculate_route_stability r vs =
     (case stability_scores r vs of [] \<Rightarrow> 0 | s # ss \<Rightarrow> fold min ss s)"

text \<open>The score \<open>float('-inf')\<close> of a route with fewer than two points is \<open>None\<close>.\<close>

definition calculate_route_score :: "route \<Rightarrow> vehicles \<Rightarrow> real option" where
  "calculate_route_score r vs =
     (if length r < 2 then None
      else Some (0.4 * (1 / real (length r - 1)) + 0.6 * calculate_route_stability r vs))"

definition select_best_route_step ::
  "vehicles \<Rightarrow> route \<Rightarrow> real option \<times> route option \<Rightarrow> real option \<times> route option" where
  "select_best_route_step vs r best =
     (case calculate_route_score r vs of
        None \<Rightarrow> best
      | Some score \<Rightarrow> if exceeds score (fst best) then (Some score, Some r) else best)"

text \<open>The result is \<open>[]\<close> for no routes, and Python's \<open>None\<close> when no score beat minus infinity.\<close>

definition select_best_route :: "route list \<Rightarrow> vehicles \<Rightarrow> route option" where
  "select_best_route routes vs =
     (if routes = [] then Some []
      else snd (fold (select_best_route_step vs) routes (None, None)))"

definition discover_route :: "location \<Rightarrow> location \<Rightarrow> vehicles \<Rightarrow> route option option" where
  "discover_route source destination vs =
     (case discover_loop destination vs [(source, [source])] {source} [] of
        None \<Rightarrow> None
      | Some discovered_routes \<Rightarrow> Some (select_best_route (map snd discovered_routes) vs))"

fun is_route_valid :: "route \<Rightarrow> vehicles \<Rightarrow> bool" where
  "is_route_valid (current # next_hop # rest) vs =
     (if list_ex (\<lambda>entry. distance current (location (snd entry)) \<le> MAX_V2V_RANGE \<and>
                          distance next_hop (location (snd entry)) \<le> MAX_V2V_RANGE) vs
      then is_route_valid (next_hop # rest) vs
      else False)"
| "is_route_valid r vs = True"

definition aodv_find_route ::
  "AODVRouter \<Rightarrow> location \<Rightarrow> location \<Rightarrow> vehicles \<Rightarrow> traffic_data
   \<Rightarrow> (route \<times> AODVRouter) option" where
  "aodv_find_route router source_location destination_location vs td =
     (let route_key = (source_location, destination_location);
          cached = map_of (aodv_route_cache router) route_key
      in if cached \<noteq> None \<and> is_route_valid (the cached) vs then Some (the cached, router)
         else
           (let cache1 = (if cached \<noteq> None then AList.delete route_key (aodv_route_cache router)
                          else aodv_route_cache router)
            in case discover_route source_location destination_location vs of
                 None \<Rightarrow> None
               | Some found \<Rightarrow>
                   (case found of
                      Some (w # ws) \<Rightarrow>
                        Some (w # ws,
                              router\<lparr>aodv_route_cache := AList.update route_key (w # ws) cache1\<rparr>)
                    | other \<Rightarrow>
                        Some ([source_location, destination_location],
                              router\<lparr>aodv_route_cache := cache1\<rparr>))))"

subsection \<open>Scenarios for evaluating the routers\<close>

text \<open>
  \<open>far_vehicles\<close>: one neighbour 900 m east of the origin, on the way to a destination
  1000 m east. \<open>junction_*\<close>: a source 180 m west of the grid junction (500,0), one
  neighbour 150 m east of that junction, and a destination 50 m north of it.
\<close>

definition origin :: location where "origin = \<lparr>px = 0, py = 0\<rparr>"
definition east_1000 :: location where "east_1000 = \<lparr>px = 1000, py = 0\<rparr>"
definition east_900 :: location where "east_900 = \<lparr>px = 900, py = 0\<rparr>"

definition far_vehicles :: vehicles where
  "far_vehicles = [(''A'', \<lparr>location = east_900, speed = 80\<rparr>)]"

definition no_traffic :: traffic_data where
  "no_traffic = \<lparr>congestion_level = None\<rparr>"

definition junction_source :: location where "junction_source = \<lparr>px = 320, py = 0\<rparr>"
definition junction_500 :: location where "junction_500 = \<lparr>px = 500, py = 0\<rparr>"
definition junction_destination :: location where "junction_destination = \<lparr>px = 500, py = 50\<rparr>"
definition east_650 :: location where "east_650 = \<lparr>px = 650, py = 0\<rparr>"

definition junction_vehicles :: vehicles where
  "junction_vehicles = [(''A'', \<lparr>location = east_650, speed = 80\<rparr>)]"

text \<open>\<open>relay_vehicles\<close>: one neighbour half way between the origin and the junction (500,0).\<close>

definition east_250 :: location where "east_250 = \<lparr>px = 250, py = 0\<rparr>"

definition relay_vehicles :: vehicles where
  "relay_vehicles = [(''A'', \<lparr>location = east_250, speed = 80\<rparr>)]"

section \<open>Properties\<close>

lemma chain_inv_snoc:
  assumes inv: "chain_inv dg c" and ne: "c \<noteq> []"
  shows "chain_inv dg (c @ [Block_init dg (index (last c) + 1) t d (hash (last c))])"
proof -
  let ?b = "Block_init dg (index (last c) + 1) t d (hash (last c))"
  have nth_old: "\<And>i. i < length c \<Longrightarrow> (c @ [?b]) ! i = c ! i"
    by (simp add: nth_append)
  have nth_new: "(c @ [?b]) ! length c = ?b"
    by simp
  have last_c: "last c = c ! (length c - 1)"
    using ne by (simp add: last_conv_nth)
  have len: "0 < length c" using ne by simp
  have link: "previous_hash ((c @ [?b]) ! i) = hash ((c @ [?b]) ! (i - 1)) \<and>
              index ((c @ [?b]) ! i) = index ((c @ [?b]) ! (i - 1)) + 1"
    if "0 < i" "i < length (c @ [?b])" for i
  proof (cases "i < length c")
    case True
    then have "i - 1 < length c" by simp
    with True inv that(1) show ?thesis
      by (simp add: nth_old chain_inv_def)
  next
    case False
    with that(2) have i: "i = length c" by simp
    have "(c @ [?b]) ! (length c - 1) = c ! (length c - 1)"
      using len by (simp add: nth_old)
    then show ?thesis
      unfolding i nth_new by (simp add: Block_init_def last_c)
  qed
  have dig: "hash ((c @ [?b]) ! i) =
             dg (JDict [(''index'', JInt (index ((c @ [?b]) ! i))),
                        (''timestamp'', JNum (timestamp ((c @ [?b]) ! i))),
                        (''data'', data ((c @ [?b]) ! i)),
                        (''previous_hash'', JStr (previous_hash ((c @ [?b]) ! i)))])"
    if "i < length (c @ [?b])" for i
  proof (cases "i < length c")
    case True
    with inv show ?thesis by (simp add: nth_old chain_inv_def)
  next
    case False
    with that have i: "i = length c" by simp
    show ?thesis unfolding i nth_new
      by (simp add: Block_init_def calculate_hash_def dict_in_init_def)
  qed
  show ?thesis
    unfolding chain_inv_def using link dig by blast
qed

lemma chain_inv_genesis: "chain_inv dg (chain (Blockchain_init dg t))"
  by (auto simp: chain_inv_def Blockchain_init_def create_genesis_block_def Block_init_def
      calculate_hash_def dict_in_init_def)

lemma add_block_chain:
  "add_block dg d t bc = Some bc' \<Longrightarrow>
     chain bc \<noteq> [] \<and>
     chain bc' = chain bc @ [Block_init dg (index (last (chain bc)) + 1) t d (hash (last (chain bc)))] \<and>
     malicious_vehicles bc' = malicious_vehicles bc"
  by (auto simp: add_block_def get_latest_block_def split: if_splits)

lemma add_block_Some:
  "chain bc \<noteq> [] \<Longrightarrow> \<exists>bc'. add_block dg d t bc = Some bc'"
  by (simp add: add_block_def get_latest_block_def)

lemma apply_op_chain:
  "apply_op dg op bc = Some bc' \<Longrightarrow>
     chain bc \<noteq> [] \<and>
     (\<exists>t d. chain bc' =
        chain bc @ [Block_init dg (index (last (chain bc)) + 1) t d (hash (last (chain bc)))])"
proof (cases op)
  case (Add_block d t)
  assume "apply_op dg op bc = Some bc'"
  with Add_block show ?thesis
    using add_block_chain [of dg d t bc bc'] by auto
next
  case (Add_malicious_vehicle v tp tb)
  assume "apply_op dg op bc = Some bc'"
  with Add_malicious_vehicle show ?thesis
    by (fastforce simp: add_malicious_vehicle_def dest!: add_block_chain)
next
  case (Record_vehicle_data v loc spd dir m tp tb)
  assume "apply_op dg op bc = Some bc'"
  with Record_vehicle_data show ?thesis
    by (fastforce simp: record_vehicle_data_def dest!: add_block_chain)
next
  case (Record_rsu_data r cs tr tp tb)
  assume "apply_op dg op bc = Some bc'"
  with Record_rsu_data show ?thesis
    by (fastforce simp: record_rsu_data_def dest!: add_block_chain)
qed

lemma apply_op_inv:
  assumes "chain_inv dg (chain bc)" and "apply_op dg op bc = Some bc'"
  shows "chain_inv dg (chain bc')"
proof -
  from apply_op_chain [OF assms(2)] obtain t d where
    ne: "chain bc \<noteq> []" and
    c: "chain bc' =
        chain bc @ [Block_init dg (index (last (chain bc)) + 1) t d (hash (last (chain bc)))]"
    by blast
  show ?thesis unfolding c by (rule chain_inv_snoc [OF assms(1) ne])
qed


lemma apply_ops_inv:
  "apply_ops dg ops bc = Some bc' \<Longrightarrow> chain_inv dg (chain bc) \<Longrightarrow>
     chain_inv dg (chain bc') \<and> length (chain bc') = length (chain bc) + length ops"
proof (induction ops arbitrary: bc)
  case Nil
  then show ?case by simp
next
  case (Cons op ops)
  from Cons.prems(1) obtain bc1 where
    s1: "apply_op dg op bc = Some bc1" and s2: "apply_ops dg ops bc1 = Some bc'"
    by (auto split: option.splits)
  have i1: "chain_inv dg (chain bc1)"
    by (rule apply_op_inv [OF Cons.prems(2) s1])
  have l1: "length (chain bc1) = length (chain bc) + 1"
    using apply_op_chain [OF s1] by auto
  from Cons.IH [OF s2 i1] l1 show ?case by simp
qed

lemma valid_from_second_block:
  assumes "hash b = dg (JDict [(''index'', JInt (index b)), (''timestamp'', JNum (timestamp b)),
                               (''data'', data b), (''previous_hash'', JStr (previous_hash b))])"
    and "\<forall>d. dg (JDict (d @ [(''hash'', JStr (dg (JDict d)))])) \<noteq> dg (JDict d)"
  shows "\<not> valid_from dg g (b # rest)"
proof -
  let ?d = "[(''index'', JInt (index b)), (''timestamp'', JNum (timestamp b)),
             (''data'', data b), (''previous_hash'', JStr (previous_hash b))]"
  have "calculate_hash dg (obj_dict b) = dg (JDict (?d @ [(''hash'', JStr (dg (JDict ?d)))]))"
    using assms(1) by (simp add: obj_dict_def calculate_hash_def dict_in_init_def)
  moreover have "hash b = dg (JDict ?d)"
    using assms(1) by simp
  ultimately have "hash b \<noteq> calculate_hash dg (obj_dict b)"
    using assms(2) by metis
  then show ?thesis by simp
qed

text \<open>
  C9. Every ledger operation (\<open>add_block\<close>, \<open>add_malicious_vehicle\<close>,
  \<open>record_vehicle_data\<close>, \<open>record_rsu_data\<close>) keeps the chain invariant: each block
  after the first carries the hash of its predecessor and the next index, and every
  stored hash is the digest computed over the other four fields at construction.
\<close>

theorem chain_invariant_preserved:
  assumes "chain_inv dg (chain bc)" and "apply_op dg op bc = Some bc'"
  shows "chain_inv dg (chain bc')"
  using assms by (rule apply_op_inv)

theorem chain_invariant_preserved_witness:
  "chain_inv sample_digest (chain (Blockchain_init sample_digest 0)) \<and>
   apply_op sample_digest (Add_malicious_vehicle ''V1'' 1 2) (Blockchain_init sample_digest 0) =
     Some \<lparr>chain = [create_genesis_block sample_digest 0,
                    Block_init sample_digest 1 2
                      (JDict [(''type'', JStr ''malicious_vehicle''), (''vehicle_id'', JStr ''V1''),
                              (''timestamp'', JNum 1)])
                      (hash (create_genesis_block sample_digest 0))],
           malicious_vehicles = {''V1''}\<rparr> \<and>
   chain_inv sample_digest
     [create_genesis_block sample_digest 0,
      Block_init sample_digest 1 2
        (JDict [(''type'', JStr ''malicious_vehicle''), (''vehicle_id'', JStr ''V1''),
                (''timestamp'', JNum 1)])
        (hash (create_genesis_block sample_digest 0))]"
proof -
  have a: "chain_inv sample_digest (chain (Blockchain_init sample_digest 0))"
    by (rule chain_inv_genesis)
  have b: "apply_op sample_digest (Add_malicious_vehicle ''V1'' 1 2) (Blockchain_init sample_digest 0) =
     Some \<lparr>chain = [create_genesis_block sample_digest 0,
                    Block_init sample_digest 1 2
                      (JDict [(''type'', JStr ''malicious_vehicle''), (''vehicle_id'', JStr ''V1''),
                              (''timestamp'', JNum 1)])
                      (hash (create_genesis_block sample_digest 0))],
           malicious_vehicles = {''V1''}\<rparr>"
    by (simp add: add_malicious_vehicle_def add_block_def get_latest_block_def
        Blockchain_init_def create_genesis_block_def Block_init_def)
  from chain_invariant_preserved [OF a b] a b show ?thesis by simp
qed

text \<open>
  C1 (what the code does). \<open>is_chain_valid\<close> recomputes the hash of a constructed
  block over a dictionary that now holds the key \<open>hash\<close> as well. For a digest that
  tells a dictionary from the same dictionary extended with its own digest (as SHA-256
  does), validation after any non-empty sequence of appends to a fresh ledger answers
  \<open>False\<close>, where the claim expects no violation.
\<close>

theorem is_chain_valid_rejects_appended_chain:
  assumes "apply_ops dg ops (Blockchain_init dg t0) = Some bc"
    and "ops \<noteq> []"
    and "\<forall>d. dg (JDict (d @ [(''hash'', JStr (dg (JDict d)))])) \<noteq> dg (JDict d)"
  shows "\<not> is_chain_valid dg bc"
proof -
  from apply_ops_inv [OF assms(1) chain_inv_genesis]
  have inv: "chain_inv dg (chain bc)"
    and len: "length (chain bc) = length (chain (Blockchain_init dg t0)) + length ops"
    by simp_all
  from assms(2) have "0 < length ops" by simp
  with len have "2 \<le> length (chain bc)"
    by (cases ops) (simp_all add: Blockchain_init_def)
  then obtain g b rest where c: "chain bc = g # b # rest"
    by (cases "chain bc"; cases "tl (chain bc)") auto
  from inv have "hash ((chain bc) ! 1) =
      dg (JDict [(''index'', JInt (index ((chain bc) ! 1))),
                 (''timestamp'', JNum (timestamp ((chain bc) ! 1))),
                 (''data'', data ((chain bc) ! 1)),
                 (''previous_hash'', JStr (previous_hash ((chain bc) ! 1)))])"
    unfolding chain_inv_def using \<open>2 \<le> length (chain bc)\<close> by auto
  then have hb: "hash b =
      dg (JDict [(''index'', JInt (index b)), (''timestamp'', JNum (timestamp b)),
                 (''data'', data b), (''previous_hash'', JStr (previous_hash b))])"
    by (simp add: c)
  show ?thesis
    using valid_from_second_block [OF hb assms(3)] by (simp add: is_chain_valid_def c)
qed

theorem is_chain_valid_rejects_appended_chain_witness:
  "apply_ops sample_digest [Add_block (JDict [(''type'', JStr ''note'')]) 1]
     (Blockchain_init sample_digest 0) =
     Some \<lparr>chain = [create_genesis_block sample_digest 0,
                    Block_init sample_digest 1 1 (JDict [(''type'', JStr ''note'')])
                      (hash (create_genesis_block sample_digest 0))],
           malicious_vehicles = {}\<rparr> \<and>
   [Add_block (JDict [(''type'', JStr ''note'')]) 1] \<noteq> [] \<and>
   (\<forall>d. sample_digest (JDict (d @ [(''hash'', JStr (sample_digest (JDict d)))])) \<noteq>
          sample_digest (JDict d)) \<and>
   \<not> is_chain_valid sample_digest
     \<lparr>chain = [create_genesis_block sample_digest 0,
               Block_init sample_digest 1 1 (JDict [(''type'', JStr ''note'')])
                 (hash (create_genesis_block sample_digest 0))],
      malicious_vehicles = {}\<rparr>"
proof -
  have a: "apply_ops sample_digest [Add_block (JDict [(''type'', JStr ''note'')]) 1]
     (Blockchain_init sample_digest 0) =
     Some \<lparr>chain = [create_genesis_block sample_digest 0,
                    Block_init sample_digest 1 1 (JDict [(''type'', JStr ''note'')])
                      (hash (create_genesis_block sample_digest 0))],
           malicious_vehicles = {}\<rparr>"
    by (simp add: add_block_def get_latest_block_def
        Blockchain_init_def create_genesis_block_def Block_init_def)
  have b: "[Add_block (JDict [(''type'', JStr ''note'')]) 1] \<noteq> []"
    by simp
  have c: "\<forall>d. sample_digest (JDict (d @ [(''hash'', JStr (sample_digest (JDict d)))])) \<noteq>
          sample_digest (JDict d)"
    by simp
  from is_chain_valid_rejects_appended_chain [OF a b c] a b c show ?thesis by blast
qed

subsection \<open>Anomaly detector\<close>

lemma sqrt_gt_iff: "0 \<le> b \<Longrightarrow> sqrt a > b \<longleftrightarrow> a > b\<^sup>2"
  by (metis real_sqrt_less_iff real_sqrt_abs abs_of_nonneg)

lemma sqrt_le_iff: "0 \<le> b \<Longrightarrow> sqrt a \<le> b \<longleftrightarrow> a \<le> b\<^sup>2"
  by (metis real_sqrt_le_iff real_sqrt_abs abs_of_nonneg)


lemma update_below_threshold:
  assumes "vehicle_id \<notin> get_malicious_vehicles (blockchain rsu)"
    and "map_of (connected_vehicles rsu) vehicle_id = Some prev_data"
    and "current_time - rx_timestamp prev_data > 0"
    and "is_suspicious rsu prev_data d current_time"
    and "suspicious_count_get rsu vehicle_id + 1 < 3"
  shows "update_vehicle_data dg vehicle_id d p current_time tp tb rsu =
         Some (store_vehicle vehicle_id d current_time p
                 (rsu\<lparr>suspicious_count :=
                    (suspicious_count rsu)(vehicle_id \<mapsto> suspicious_count_get rsu vehicle_id + 1)\<rparr>))"
  using assms by (simp add: update_vehicle_data_def Let_def)

lemma update_not_suspicious:
  assumes "vehicle_id \<notin> get_malicious_vehicles (blockchain rsu)"
    and "map_of (connected_vehicles rsu) vehicle_id = Some prev_data"
    and "\<not> (current_time - rx_timestamp prev_data > 0 \<and> is_suspicious rsu prev_data d current_time)"
  shows "update_vehicle_data dg vehicle_id d p current_time tp tb rsu =
         Some (store_vehicle vehicle_id d current_time p rsu)"
  using assms by (auto simp: update_vehicle_data_def Let_def)





lemma scenario_facts:
  "''V1'' \<notin> get_malicious_vehicles (blockchain (scenario_rsu n))"
  "map_of (connected_vehicles (scenario_rsu n)) ''V1'' = Some scenario_prev"
  "1 - rx_timestamp scenario_prev > 0"
  "chain (blockchain (scenario_rsu n)) \<noteq> []"
  "suspicious_count_get (scenario_rsu n) ''V1'' = n"
  "length (chain (blockchain (scenario_rsu n))) = 1"
  by (simp_all add: scenario_rsu_def scenario_prev_def get_malicious_vehicles_def
      Blockchain_init_def suspicious_count_get_def)

lemma scenario_speeding:
  "is_suspicious (scenario_rsu n) scenario_prev (scenario_beacon x_pos 250) 1"
  by (simp add: is_suspicious_def impossible_speed_def scenario_beacon_def
      VEHICLE_MAX_VELOCITY_def)


text \<open>
  C10. A tracked vehicle's update that is flagged suspicious while the counter stays
  below 3 is stored: the vehicle's entry becomes the record of the new location, speed
  and accident flag together with the reception time and the sender's port, in the same
  place of the association list, as a non-suspicious update does; the ledger is left
  alone and only the counter differs.
\<close>

theorem suspicious_update_below_threshold_stored:
  assumes "vehicle_id \<notin> get_malicious_vehicles (blockchain rsu)"
    and "map_of (connected_vehicles rsu) vehicle_id = Some prev_data"
    and "current_time - rx_timestamp prev_data > 0"
    and "is_suspicious rsu prev_data d current_time"
    and "suspicious_count_get rsu vehicle_id + 1 < 3"
  shows "\<exists>rsu'. update_vehicle_data dg vehicle_id d p current_time tp tb rsu = Some rsu' \<and>
           connected_vehicles rsu' =
             AList.update vehicle_id
               \<lparr>location = location d, speed = speed d, sees_accident = sees_accident d,
                rx_timestamp = current_time, port = p\<rparr>
               (connected_vehicles rsu) \<and>
           connected_vehicles rsu' =
             connected_vehicles (store_vehicle vehicle_id d current_time p rsu) \<and>
           map_of (connected_vehicles rsu') vehicle_id =
             Some \<lparr>location = location d, speed = speed d, sees_accident = sees_accident d,
                   rx_timestamp = current_time, port = p\<rparr> \<and>
           (\<forall>other. other \<noteq> vehicle_id \<longrightarrow>
              map_of (connected_vehicles rsu') other = map_of (connected_vehicles rsu) other) \<and>
           map fst (connected_vehicles rsu') = map fst (connected_vehicles rsu) \<and>
           suspicious_count rsu' =
             (suspicious_count rsu)(vehicle_id \<mapsto> suspicious_count_get rsu vehicle_id + 1) \<and>
           blockchain rsu' = blockchain rsu"
proof -
  let ?entry = "\<lparr>location = location d, speed = speed d, sees_accident = sees_accident d,
                rx_timestamp = current_time, port = p\<rparr>"
  let ?rsu' = "store_vehicle vehicle_id d current_time p
                 (rsu\<lparr>suspicious_count :=
                    (suspicious_count rsu)(vehicle_id \<mapsto> suspicious_count_get rsu vehicle_id + 1)\<rparr>)"
  have u: "update_vehicle_data dg vehicle_id d p current_time tp tb rsu = Some ?rsu'"
    by (rule update_below_threshold [OF assms])
  have a: "connected_vehicles ?rsu' = AList.update vehicle_id ?entry (connected_vehicles rsu)"
    by (simp add: store_vehicle_def stored_entry_def)
  have b: "connected_vehicles ?rsu' = connected_vehicles (store_vehicle vehicle_id d current_time p rsu)"
    by (simp add: store_vehicle_def)
  have c: "map_of (connected_vehicles ?rsu') vehicle_id = Some ?entry"
    unfolding a by (simp add: update_conv')
  have o: "\<forall>other. other \<noteq> vehicle_id \<longrightarrow>
            map_of (connected_vehicles ?rsu') other = map_of (connected_vehicles rsu) other"
    unfolding a by (simp add: update_conv')
  have "vehicle_id \<in> fst ` set (connected_vehicles rsu)"
    using assms(2) by (metis domI dom_map_of_conv_image_fst)
  then have k: "map fst (connected_vehicles ?rsu') = map fst (connected_vehicles rsu)"
    unfolding a by (simp add: update_keys)
  have n: "suspicious_count ?rsu' =
             (suspicious_count rsu)(vehicle_id \<mapsto> suspicious_count_get rsu vehicle_id + 1)"
    by (simp add: store_vehicle_def)
  have e: "blockchain ?rsu' = blockchain rsu"
    by (simp add: store_vehicle_def)
  from u a b c o k n e show ?thesis by blast
qed

theorem suspicious_update_below_threshold_stored_witness:
  "''V1'' \<notin> get_malicious_vehicles (blockchain (scenario_rsu 1)) \<and>
   map_of (connected_vehicles (scenario_rsu 1)) ''V1'' = Some scenario_prev \<and>
   1 - rx_timestamp scenario_prev > 0 \<and>
   is_suspicious (scenario_rsu 1) scenario_prev (scenario_beacon 1000 250) 1 \<and>
   suspicious_count_get (scenario_rsu 1) ''V1'' + 1 < 3 \<and>
   (\<exists>rsu'. update_vehicle_data sample_digest ''V1'' (scenario_beacon 1000 250) 5000 1 1 1
              (scenario_rsu 1) = Some rsu' \<and>
           connected_vehicles rsu' =
             [(''V1'', \<lparr>location = \<lparr>px = 1000, py = 0\<rparr>, speed = 250, sees_accident = None,
                        rx_timestamp = 1, port = 5000\<rparr>)] \<and>
           update_vehicle_data sample_digest ''V1'' (scenario_beacon 1000 250) 5000 0 1 1
              (scenario_rsu 1) =
             Some (store_vehicle ''V1'' (scenario_beacon 1000 250) 0 5000 (scenario_rsu 1)))"
proof -
  have lt: "suspicious_count_get (scenario_rsu 1) ''V1'' + 1 < 3"
    by (simp add: scenario_facts(5))
  have ns: "\<not> (0 - rx_timestamp scenario_prev > 0 \<and>
               is_suspicious (scenario_rsu 1) scenario_prev (scenario_beacon 1000 250) 0)"
    by (simp add: scenario_prev_def)
  note n = update_not_suspicious [where dg = sample_digest and p = 5000 and tp = 1 and tb = 1,
      OF scenario_facts(1) [of 1] scenario_facts(2) ns]
  from suspicious_update_below_threshold_stored
      [where dg = sample_digest and p = 5000 and tp = 1 and tb = 1,
       OF scenario_facts(1) [of 1] scenario_facts(2) scenario_facts(3)
       scenario_speeding [of 1 1000] lt]
  obtain r where
    r: "update_vehicle_data sample_digest ''V1'' (scenario_beacon 1000 250) 5000 1 1 1
              (scenario_rsu 1) = Some r"
       "connected_vehicles r =
          AList.update ''V1''
            \<lparr>location = location (scenario_beacon 1000 250), speed = speed (scenario_beacon 1000 250),
             sees_accident = sees_accident (scenario_beacon 1000 250),
             rx_timestamp = 1, port = 5000\<rparr>
            (connected_vehicles (scenario_rsu 1))"
    by blast
  from r(2) have "connected_vehicles r =
             [(''V1'', \<lparr>location = \<lparr>px = 1000, py = 0\<rparr>, speed = 250, sees_accident = None,
                        rx_timestamp = 1, port = 5000\<rparr>)]"
    by (simp add: scenario_rsu_def scenario_beacon_def)
  with r(1) n lt scenario_facts(1) [of 1] scenario_facts(2) [of 1] scenario_facts(4) [of 1] scenario_facts(3)
    scenario_speeding [of 1 1000]
  show ?thesis by blast
qed

lemma distance_le_iff:
  "0 \<le> r \<Longrightarrow> distance a b \<le> r \<longleftrightarrow> (px a - px b)\<^sup>2 + (py a - py b)\<^sup>2 \<le> r\<^sup>2"
  by (simp add: distance_def sqrt_le_iff)

lemma distance_gt_iff:
  "0 \<le> r \<Longrightarrow> distance a b > r \<longleftrightarrow> (px a - px b)\<^sup>2 + (py a - py b)\<^sup>2 > r\<^sup>2"
  by (simp add: distance_def sqrt_gt_iff)

lemma distance_less_iff:
  "distance a c < distance b c \<longleftrightarrow>
     (px a - px c)\<^sup>2 + (py a - py c)\<^sup>2 < (px b - px c)\<^sup>2 + (py b - py c)\<^sup>2"
  by (simp add: distance_def)

lemma map_filter_of_filter:
  "List.map_filter f (filter P xs) = List.map_filter (\<lambda>x. if P x then f x else None) xs"
  by (induction xs) (auto split: option.splits)

lemma map_filter_cong_set:
  "(\<And>x. x \<in> set xs \<Longrightarrow> f x = g x) \<Longrightarrow> List.map_filter f xs = List.map_filter g xs"
proof (induction xs)
  case Nil
  show ?case by simp
next
  case (Cons a xs)
  have tl: "List.map_filter f xs = List.map_filter g xs"
    by (rule Cons.IH) (simp add: Cons.prems)
  have hd: "f a = g a"
    by (rule Cons.prems) simp
  show ?case by (simp add: tl hd split: option.splits)
qed

lemma nearby_reports_explicit:
  "nearby_reports rsu d current_time =
     List.map_filter
            (\<lambda>(vid, v).
               if vid \<notin> malicious_vehicles (blockchain rsu) \<and>
                  (px (location d) - px (location v))\<^sup>2 +
                  (py (location d) - py (location v))\<^sup>2 \<le> 90000 \<and>
                  rx_timestamp v > current_time - 2
               then sees_accident v else None)
            (connected_vehicles rsu)"
  unfolding nearby_reports_def get_nearby_vehicles_def map_filter_of_filter
  by (rule map_filter_cong_set)
    (auto simp: get_malicious_vehicles_def distance_le_iff split: if_splits)

lemma reports_of_others_explicit:
  "reports_of_others rsu vehicle_id d current_time =
     List.map_filter
            (\<lambda>(vid, v).
               if vid \<noteq> vehicle_id \<and> vid \<notin> malicious_vehicles (blockchain rsu) \<and>
                  (px (location d) - px (location v))\<^sup>2 +
                  (py (location d) - py (location v))\<^sup>2 \<le> 90000 \<and>
                  rx_timestamp v > current_time - 2
               then sees_accident v else None)
            (connected_vehicles rsu)"
  unfolding reports_of_others_def get_nearby_vehicles_def map_filter_of_filter
  by (rule map_filter_cong_set)
    (auto simp: get_malicious_vehicles_def distance_le_iff split: if_splits)

lemma majority_report_explicit:
  "majority_report reports \<longleftrightarrow> 2 * length (filter (\<lambda>r. r) reports) > length reports"
proof -
  have "real (length reports) / 2 < real (length (filter (\<lambda>r. r) reports)) \<longleftrightarrow>
        real (length reports) < real (2 * length (filter (\<lambda>r. r) reports))"
    by auto
  then show ?thesis
    unfolding majority_report_def of_nat_less_iff .
qed

lemma inconsistent_report_iff:
  "inconsistent_report rsu d current_time \<longleftrightarrow>
     (\<exists>flag. sees_accident d = Some flag \<and> nearby_reports rsu d current_time \<noteq> [] \<and>
             flag \<noteq> majority_report (nearby_reports rsu d current_time))"
  by (auto simp: inconsistent_report_def Let_def split: option.splits)

lemma majority_report_single: "majority_report [r] = r"
  by (simp add: majority_report_def)

text \<open>
  C7 as stated fails in its second half: one second after a snapshot at (0,0) with
  speed 80 km/h, a report from (22,0) is flagged when it denies an accident that the
  recent nearby entries of the RSU (here the sender's own previous one) affirm, and
  when it reports a speed of 200 km/h.
\<close>

theorem kinematic_scenario_counterexample:
  "map_of (connected_vehicles own_rsu) ''V1'' = Some own_prev \<and>
   speed own_prev = 80 \<and> location own_prev = \<lparr>px = 0, py = 0\<rparr> \<and>
   1 - rx_timestamp own_prev = 1 \<and>
   location slow_denying_beacon = \<lparr>px = 22, py = 0\<rparr> \<and>
   is_suspicious own_rsu own_prev slow_denying_beacon 1 \<and>
   map_of (connected_vehicles (scenario_rsu 0)) ''V1'' = Some scenario_prev \<and>
   speed scenario_prev = 80 \<and> location scenario_prev = \<lparr>px = 0, py = 0\<rparr> \<and>
   1 - rx_timestamp scenario_prev = 1 \<and>
   location (scenario_beacon 22 200) = \<lparr>px = 22, py = 0\<rparr> \<and>
   is_suspicious (scenario_rsu 0) scenario_prev (scenario_beacon 22 200) 1"
proof -
  have own: "map_of (connected_vehicles own_rsu) ''V1'' = Some own_prev"
    "speed own_prev = 80" "location own_prev = \<lparr>px = 0, py = 0\<rparr>"
    "1 - rx_timestamp own_prev = 1"
    "location slow_denying_beacon = \<lparr>px = 22, py = 0\<rparr>"
    by (simp_all add: own_rsu_def own_prev_def slow_denying_beacon_def)
  have reports: "nearby_reports own_rsu slow_denying_beacon 1 = [True]"
    unfolding nearby_reports_explicit
    by (simp add: own_rsu_def slow_denying_beacon_def Blockchain_init_def)
  have flag: "sees_accident slow_denying_beacon = Some False"
    by (simp add: slow_denying_beacon_def)
  have "inconsistent_report own_rsu slow_denying_beacon 1"
    unfolding inconsistent_report_iff reports flag
    by (auto simp: majority_report_single)
  then have s1: "is_suspicious own_rsu own_prev slow_denying_beacon 1"
    by (simp add: is_suspicious_def)
  have sc: "map_of (connected_vehicles (scenario_rsu 0)) ''V1'' = Some scenario_prev"
    "speed scenario_prev = 80" "location scenario_prev = \<lparr>px = 0, py = 0\<rparr>"
    "1 - rx_timestamp scenario_prev = 1"
    "location (scenario_beacon 22 200) = \<lparr>px = 22, py = 0\<rparr>"
    by (simp_all add: scenario_rsu_def scenario_prev_def scenario_beacon_def)
  have "impossible_speed (scenario_beacon 22 200)"
    by (simp add: impossible_speed_def scenario_beacon_def VEHICLE_MAX_VELOCITY_def)
  then have s2: "is_suspicious (scenario_rsu 0) scenario_prev (scenario_beacon 22 200) 1"
    by (simp add: is_suspicious_def)
  from own s1 sc s2 show ?thesis by blast
qed

text \<open>
  C7 (amended). With previous speed 80 km/h and previous location (0,0), one second
  later: a report from (1000,0) exceeds the kinematic bound \<open>80 * 1000 / 3600 * 1 * 1.2\<close>
  and is flagged; a report from (22,0) passes the kinematic and the geo-fence checks, so
  it is flagged exactly when its reported speed exceeds 150 km/h or it carries an
  accident flag that differs from the strict majority of the flags stored, less than 2
  seconds ago, for tracked non-blacklisted vehicles within 300 m of (22,0); it is not
  flagged at all for a speed up to 150 km/h and no accident flag.
\<close>

theorem kinematic_bound_scenario:
  assumes "speed prev_data = 80"
    and "location prev_data = \<lparr>px = 0, py = 0\<rparr>"
    and "current_time - rx_timestamp prev_data = 1"
  shows "(location d = \<lparr>px = 1000, py = 0\<rparr> \<longrightarrow>
            impossible_movement prev_data d (current_time - rx_timestamp prev_data) \<and>
            is_suspicious rsu prev_data d current_time) \<and>
         (location d = \<lparr>px = 22, py = 0\<rparr> \<longrightarrow>
            \<not> impossible_movement prev_data d (current_time - rx_timestamp prev_data) \<and>
            \<not> outside_bounds d \<and>
            (is_suspicious rsu prev_data d current_time \<longleftrightarrow>
               impossible_speed d \<or> inconsistent_report rsu d current_time) \<and>
            (let reports =
               List.map_filter
                 (\<lambda>(vid, v).
                    if vid \<notin> malicious_vehicles (blockchain rsu) \<and>
                       (px (location d) - px (location v))\<^sup>2 +
                       (py (location d) - py (location v))\<^sup>2 \<le> 90000 \<and>
                       rx_timestamp v > current_time - 2
                    then sees_accident v else None)
                 (connected_vehicles rsu)
             in is_suspicious rsu prev_data d current_time \<longleftrightarrow>
                  speed d > 150 \<or>
                  (\<exists>flag. sees_accident d = Some flag \<and> reports \<noteq> [] \<and>
                     flag \<noteq> (2 * length (filter (\<lambda>r. r) reports) > length reports))) \<and>
            (speed d \<le> 150 \<and> sees_accident d = None \<longrightarrow>
               \<not> is_suspicious rsu prev_data d current_time))"
proof -
  have far: "impossible_movement prev_data d 1" if "location d = \<lparr>px = 1000, py = 0\<rparr>"
    using that assms(1,2) by (simp add: impossible_movement_def sqrt_gt_iff)
  have near: "\<not> impossible_movement prev_data d 1" if "location d = \<lparr>px = 22, py = 0\<rparr>"
    using that assms(1,2) by (simp add: impossible_movement_def sqrt_gt_iff power2_eq_square)
  have inside: "\<not> outside_bounds d" if "location d = \<lparr>px = 22, py = 0\<rparr>"
    using that by (simp add: outside_bounds_def NETWORK_LENGTH_def NETWORK_WIDTH_def)
  have fast: "impossible_speed d \<longleftrightarrow> speed d > 150"
    by (simp add: impossible_speed_def VEHICLE_MAX_VELOCITY_def)
  have peers: "inconsistent_report rsu d current_time \<longleftrightarrow>
      (\<exists>flag. sees_accident d = Some flag \<and> nearby_reports rsu d current_time \<noteq> [] \<and>
         flag \<noteq> (2 * length (filter (\<lambda>r. r) (nearby_reports rsu d current_time)) >
                   length (nearby_reports rsu d current_time)))"
    unfolding inconsistent_report_iff majority_report_explicit ..
  have quiet: "\<not> inconsistent_report rsu d current_time" if "sees_accident d = None"
    using that by (simp add: inconsistent_report_def)
  have first: "location d = \<lparr>px = 1000, py = 0\<rparr> \<longrightarrow>
            impossible_movement prev_data d 1 \<and> is_suspicious rsu prev_data d current_time"
    unfolding assms(3) is_suspicious_def using far by blast
  have plain: "is_suspicious rsu prev_data d current_time \<longleftrightarrow>
               impossible_speed d \<or> inconsistent_report rsu d current_time"
    if "location d = \<lparr>px = 22, py = 0\<rparr>"
    unfolding assms(3) is_suspicious_def using near [OF that] inside [OF that] by blast
  have explicit: "is_suspicious rsu prev_data d current_time \<longleftrightarrow>
        speed d > 150 \<or>
        (\<exists>flag. sees_accident d = Some flag \<and> nearby_reports rsu d current_time \<noteq> [] \<and>
           flag \<noteq> (2 * length (filter (\<lambda>r. r) (nearby_reports rsu d current_time)) >
                     length (nearby_reports rsu d current_time)))"
    if "location d = \<lparr>px = 22, py = 0\<rparr>"
    unfolding plain [OF that] fast peers ..
  have silent: "\<not> is_suspicious rsu prev_data d current_time"
    if "location d = \<lparr>px = 22, py = 0\<rparr>" "speed d \<le> 150" "sees_accident d = None"
    unfolding plain [OF that(1)] fast using that(2) quiet [OF that(3)] by simp
  show ?thesis
    unfolding assms(3) Let_def nearby_reports_explicit [symmetric]
    using first near inside plain explicit silent unfolding assms(3) by blast
qed

theorem kinematic_bound_scenario_witness:
  "speed scenario_prev = 80 \<and> location scenario_prev = \<lparr>px = 0, py = 0\<rparr> \<and>
   1 - rx_timestamp scenario_prev = 1 \<and>
   location (scenario_beacon 1000 80) = \<lparr>px = 1000, py = 0\<rparr> \<and>
   location (scenario_beacon 22 79) = \<lparr>px = 22, py = 0\<rparr> \<and>
   speed (scenario_beacon 22 79) \<le> 150 \<and> sees_accident (scenario_beacon 22 79) = None \<and>
   impossible_movement scenario_prev (scenario_beacon 1000 80) (1 - rx_timestamp scenario_prev) \<and>
   is_suspicious (scenario_rsu 0) scenario_prev (scenario_beacon 1000 80) 1 \<and>
   \<not> is_suspicious (scenario_rsu 0) scenario_prev (scenario_beacon 22 79) 1"
proof -
  have h: "speed scenario_prev = 80" "location scenario_prev = \<lparr>px = 0, py = 0\<rparr>"
    "1 - rx_timestamp scenario_prev = 1"
    by (simp_all add: scenario_prev_def)
  have g: "location (scenario_beacon 1000 80) = \<lparr>px = 1000, py = 0\<rparr>"
    "location (scenario_beacon 22 79) = \<lparr>px = 22, py = 0\<rparr>"
    "speed (scenario_beacon 22 79) \<le> 150" "sees_accident (scenario_beacon 22 79) = None"
    by (simp_all add: scenario_beacon_def)
  from kinematic_bound_scenario [OF h, where d = "scenario_beacon 1000 80" and rsu = "scenario_rsu 0"]
  have a: "impossible_movement scenario_prev (scenario_beacon 1000 80)
             (1 - rx_timestamp scenario_prev) \<and>
           is_suspicious (scenario_rsu 0) scenario_prev (scenario_beacon 1000 80) 1"
    using g(1) by blast
  from kinematic_bound_scenario [OF h, where d = "scenario_beacon 22 79" and rsu = "scenario_rsu 0"]
  have b: "\<not> is_suspicious (scenario_rsu 0) scenario_prev (scenario_beacon 22 79) 1"
    using g(2,3,4) by blast
  from a b h g show ?thesis by blast
qed

lemma peer_rsu_reports:
  "nearby_reports peer_rsu denying_beacon 1 = [True]"
  "reports_of_others peer_rsu ''V1'' denying_beacon 1 = [True]"
  by (simp_all add: nearby_reports_def reports_of_others_def get_nearby_vehicles_def
      peer_rsu_def denying_beacon_def scenario_prev_def get_malicious_vehicles_def
      Blockchain_init_def distance_le_iff)

lemma own_rsu_reports:
  "nearby_reports own_rsu denying_beacon 1 = [True]"
  "reports_of_others own_rsu ''V1'' denying_beacon 1 = []"
  by (simp_all add: nearby_reports_def reports_of_others_def get_nearby_vehicles_def
      own_rsu_def denying_beacon_def get_malicious_vehicles_def
      Blockchain_init_def distance_le_iff)

text \<open>
  C5 as stated fails: with exactly one recent report from another vehicle the check
  is evaluated and flags the update, and the reports counted can include the reporting
  vehicle's own stored entry.
\<close>

theorem peer_consensus_counterexample:
  "\<not> (length (reports_of_others peer_rsu ''V1'' denying_beacon 1) < 2 \<longrightarrow>
        \<not> inconsistent_report peer_rsu denying_beacon 1) \<and>
   \<not> (nearby_reports own_rsu denying_beacon 1 =
        reports_of_others own_rsu ''V1'' denying_beacon 1)"
proof -
  have flag: "sees_accident denying_beacon = Some False"
    by (simp add: denying_beacon_def)
  have "inconsistent_report peer_rsu denying_beacon 1"
    unfolding inconsistent_report_iff peer_rsu_reports flag
    by (auto simp: majority_report_single)
  moreover have "length (reports_of_others peer_rsu ''V1'' denying_beacon 1) < 2"
    by (simp add: peer_rsu_reports)
  moreover have "nearby_reports own_rsu denying_beacon 1 \<noteq>
        reports_of_others own_rsu ''V1'' denying_beacon 1"
    by (simp add: own_rsu_reports)
  ultimately show ?thesis by blast
qed

text \<open>
  C5 (amended). The reports consulted are the flags stored, with a reception time later
  than 2 seconds ago, for tracked non-blacklisted entries within 300 m of the reported
  location. The guard is \<open>if nearby_reports\<close>: the check is evaluated as soon as there
  is one such report and skipped only when there is none; it flags the update when its
  flag differs from the strict majority, so with exactly one report exactly when it
  differs from that report. The entries are not filtered by id: the reports are those
  of other vehicles whenever the reporting vehicle's own stored entry has no flag, is
  at least 2 seconds old, or lies farther than 300 m away.
\<close>

theorem peer_consensus_threshold:
  "(let reports =
      List.map_filter
        (\<lambda>(vid, v).
           if vid \<notin> malicious_vehicles (blockchain rsu) \<and>
              (px (location d) - px (location v))\<^sup>2 +
              (py (location d) - py (location v))\<^sup>2 \<le> 90000 \<and>
              rx_timestamp v > current_time - 2
           then sees_accident v else None)
        (connected_vehicles rsu)
    in nearby_reports rsu d current_time = reports \<and>
       (inconsistent_report rsu d current_time \<longleftrightarrow>
          (\<exists>flag. sees_accident d = Some flag \<and> reports \<noteq> [] \<and>
             flag \<noteq> (2 * length (filter (\<lambda>r. r) reports) > length reports))) \<and>
       (reports = [] \<longrightarrow> \<not> inconsistent_report rsu d current_time) \<and>
       (\<forall>r. reports = [r] \<longrightarrow>
          (inconsistent_report rsu d current_time \<longleftrightarrow>
             (\<exists>flag. sees_accident d = Some flag \<and> flag \<noteq> r))) \<and>
       ((\<forall>v. (vehicle_id, v) \<in> set (connected_vehicles rsu) \<longrightarrow>
            sees_accident v = None \<or> rx_timestamp v \<le> current_time - 2 \<or>
            (px (location d) - px (location v))\<^sup>2 +
            (py (location d) - py (location v))\<^sup>2 > 90000) \<longrightarrow>
        reports =
          List.map_filter
            (\<lambda>(vid, v).
               if vid \<noteq> vehicle_id \<and> vid \<notin> malicious_vehicles (blockchain rsu) \<and>
                  (px (location d) - px (location v))\<^sup>2 +
                  (py (location d) - py (location v))\<^sup>2 \<le> 90000 \<and>
                  rx_timestamp v > current_time - 2
               then sees_accident v else None)
            (connected_vehicles rsu) \<and>
        reports = reports_of_others rsu vehicle_id d current_time))"
proof -
  have peers: "inconsistent_report rsu d current_time \<longleftrightarrow>
      (\<exists>flag. sees_accident d = Some flag \<and> nearby_reports rsu d current_time \<noteq> [] \<and>
         flag \<noteq> (2 * length (filter (\<lambda>r. r) (nearby_reports rsu d current_time)) >
                   length (nearby_reports rsu d current_time)))"
    unfolding inconsistent_report_iff majority_report_explicit ..
  have none: "nearby_reports rsu d current_time = [] \<longrightarrow> \<not> inconsistent_report rsu d current_time"
    unfolding peers by simp
  have one: "\<forall>r. nearby_reports rsu d current_time = [r] \<longrightarrow>
          (inconsistent_report rsu d current_time \<longleftrightarrow>
             (\<exists>flag. sees_accident d = Some flag \<and> flag \<noteq> r))"
    unfolding peers by auto
  have others: "nearby_reports rsu d current_time = reports_of_others rsu vehicle_id d current_time"
    if own: "\<forall>v. (vehicle_id, v) \<in> set (connected_vehicles rsu) \<longrightarrow>
            sees_accident v = None \<or> rx_timestamp v \<le> current_time - 2 \<or>
            (px (location d) - px (location v))\<^sup>2 +
            (py (location d) - py (location v))\<^sup>2 > 90000"
    unfolding nearby_reports_explicit reports_of_others_explicit
  proof (rule map_filter_cong_set)
    fix x assume x: "x \<in> set (connected_vehicles rsu)"
    obtain vid v where xv: "x = (vid, v)" by (cases x)
    show "(case x of (vid, v) \<Rightarrow>
             if vid \<notin> malicious_vehicles (blockchain rsu) \<and>
                (px (location d) - px (location v))\<^sup>2 +
                (py (location d) - py (location v))\<^sup>2 \<le> 90000 \<and>
                rx_timestamp v > current_time - 2
             then sees_accident v else None) =
          (case x of (vid, v) \<Rightarrow>
             if vid \<noteq> vehicle_id \<and> vid \<notin> malicious_vehicles (blockchain rsu) \<and>
                (px (location d) - px (location v))\<^sup>2 +
                (py (location d) - py (location v))\<^sup>2 \<le> 90000 \<and>
                rx_timestamp v > current_time - 2
             then sees_accident v else None)"
    proof (cases "vid = vehicle_id")
      case True
      with x xv own have "sees_accident v = None \<or> rx_timestamp v \<le> current_time - 2 \<or>
            (px (location d) - px (location v))\<^sup>2 +
            (py (location d) - py (location v))\<^sup>2 > 90000"
        by blast
      with True xv show ?thesis by auto
    next
      case False
      with xv show ?thesis by simp
    qed
  qed
  show ?thesis
    unfolding Let_def nearby_reports_explicit [symmetric] reports_of_others_explicit [symmetric]
    using peers none one others by blast
qed

theorem peer_consensus_threshold_witness:
  "map_of (connected_vehicles peer_rsu) ''V1'' = Some scenario_prev \<and>
   sees_accident scenario_prev = None \<and>
   nearby_reports peer_rsu denying_beacon 1 = [True] \<and>
   sees_accident denying_beacon = Some False \<and>
   inconsistent_report peer_rsu denying_beacon 1 \<and>
   reports_of_others peer_rsu ''V1'' denying_beacon 1 = [True]"
proof -
  have own: "map_of (connected_vehicles peer_rsu) ''V1'' = Some scenario_prev"
    "sees_accident scenario_prev = None"
    by (simp_all add: peer_rsu_def scenario_prev_def)
  have cond: "\<forall>v. (''V1'', v) \<in> set (connected_vehicles peer_rsu) \<longrightarrow>
            sees_accident v = None \<or> rx_timestamp v \<le> 1 - 2 \<or>
            (px (location denying_beacon) - px (location v))\<^sup>2 +
            (py (location denying_beacon) - py (location v))\<^sup>2 > 90000"
    by (simp add: peer_rsu_def scenario_prev_def)
  have flag: "sees_accident denying_beacon = Some False"
    by (simp add: denying_beacon_def)
  have val: "List.map_filter
        (\<lambda>(vid, v).
           if vid \<notin> malicious_vehicles (blockchain peer_rsu) \<and>
              (px (location denying_beacon) - px (location v))\<^sup>2 +
              (py (location denying_beacon) - py (location v))\<^sup>2 \<le> 90000 \<and>
              rx_timestamp v > 1 - 2
           then sees_accident v else None)
        (connected_vehicles peer_rsu) = [True]"
    by (simp add: peer_rsu_def scenario_prev_def denying_beacon_def Blockchain_init_def)
  note t = peer_consensus_threshold [of peer_rsu denying_beacon 1 "''V1''", unfolded Let_def val]
  note t1 = t [THEN conjunct1]
  note t4 = t [THEN conjunct2, THEN conjunct2, THEN conjunct2, THEN conjunct1, THEN spec,
      of True, THEN mp, OF refl]
  note t5 = t [THEN conjunct2, THEN conjunct2, THEN conjunct2, THEN conjunct2, THEN mp,
      OF cond, THEN conjunct2]
  from t4 flag have inc: "inconsistent_report peer_rsu denying_beacon 1"
    by auto
  from t5 have oth: "reports_of_others peer_rsu ''V1'' denying_beacon 1 = [True]"
    by simp
  from own t1 flag inc oth show ?thesis by simp
qed

subsection \<open>Route cache maintenance\<close>

text \<open>
  C6 as stated fails: a cache holding one entry is returned unchanged by
  \<open>update_traffic\<close>, in both strategies.
\<close>

theorem update_traffic_counterexample:
  "tmr_route_cache
     (tmr_update_traffic
        \<lparr>tmr_route_cache = [((\<lparr>px = 0, py = 0\<rparr>, \<lparr>px = 50, py = 0\<rparr>),
                             [\<lparr>px = 0, py = 0\<rparr>, \<lparr>px = 50, py = 0\<rparr>])]\<rparr>
        \<lparr>congestion_level = None\<rparr>) \<noteq> [] \<and>
   gytar_route_cache
     (gytar_update_traffic
        \<lparr>gytar_route_cache = [((\<lparr>px = 0, py = 0\<rparr>, \<lparr>px = 50, py = 0\<rparr>),
                               [\<lparr>px = 0, py = 0\<rparr>, \<lparr>px = 50, py = 0\<rparr>])]\<rparr>
        \<lparr>congestion_level = None\<rparr>) \<noteq> []"
  by (simp add: tmr_update_traffic_def gytar_update_traffic_def)

text \<open>
  C6 (amended). In the greedy and the junction-based strategy, \<open>update_traffic\<close>
  empties the route cache when it holds more than 100 entries and leaves it unchanged
  otherwise.
\<close>

theorem update_traffic_clears_large_cache:
  "tmr_route_cache (tmr_update_traffic tmr td) =
     (if length (tmr_route_cache tmr) > 100 then [] else tmr_route_cache tmr) \<and>
   gytar_route_cache (gytar_update_traffic gytar td) =
     (if length (gytar_route_cache gytar) > 100 then [] else gytar_route_cache gytar)"
  by (simp add: tmr_update_traffic_def gytar_update_traffic_def)

subsection \<open>Greedy selection of the next hop\<close>

text \<open>
  The three selection loops share one shape: among the entries passing a filter, keep
  the first one with the strictly largest score.
\<close>

lemma best_fold:
  assumes step: "\<And>e best. step e best =
      (if P e then (if exceeds (sc e) (fst best) then (Some (sc e), Some (g e)) else best)
       else best)"
    and start: "fst acc = None \<longleftrightarrow> snd acc = None"
  shows "(fst (fold step xs acc) = None \<longleftrightarrow> snd (fold step xs acc) = None) \<and>
         (snd (fold step xs acc) = None \<longleftrightarrow> snd acc = None \<and> (\<forall>e\<in>set xs. \<not> P e)) \<and>
         (\<forall>r. snd (fold step xs acc) = Some r \<longrightarrow>
              snd acc = Some r \<or> (\<exists>e\<in>set xs. P e \<and> r = g e))"
  using start
proof (induction xs arbitrary: acc)
  case Nil
  then show ?case by simp
next
  case (Cons e xs)
  have inv: "fst (step e acc) = None \<longleftrightarrow> snd (step e acc) = None"
    using Cons.prems by (simp add: step)
  have none: "snd (step e acc) = None \<longleftrightarrow> snd acc = None \<and> \<not> P e"
    using Cons.prems by (auto simp: step exceeds_def split: option.splits)
  have some: "snd (step e acc) = Some r \<Longrightarrow> snd acc = Some r \<or> (P e \<and> r = g e)" for r
    by (auto simp: step split: if_splits)
  from Cons.IH [OF inv] none some show ?case
    by (simp del: fold_simps add: fold_Cons) blast
qed

lemma find_next_hop_None:
  "find_next_hop current destination vs td = None \<longleftrightarrow>
     (\<forall>e\<in>set vs. \<not> is_forward_progress current (location (snd e)) destination)"
  using best_fold [where step = "find_next_hop_step current destination td"
      and P = "\<lambda>e. is_forward_progress current (location (snd e)) destination"
      and sc = "\<lambda>e. calculate_hop_score current (location (snd e)) destination
                     (speed (snd e)) (get_congestion td)"
      and g = "\<lambda>e. location (snd e)" and acc = "(None, None)" and xs = vs]
  by (simp add: find_next_hop_def find_next_hop_step_def Let_def)

lemma find_next_hop_Some:
  "find_next_hop current destination vs td = Some next_hop \<Longrightarrow>
     \<exists>e\<in>set vs. is_forward_progress current (location (snd e)) destination \<and>
               next_hop = location (snd e)"
  using best_fold [where step = "find_next_hop_step current destination td"
      and P = "\<lambda>e. is_forward_progress current (location (snd e)) destination"
      and sc = "\<lambda>e. calculate_hop_score current (location (snd e)) destination
                     (speed (snd e)) (get_congestion td)"
      and g = "\<lambda>e. location (snd e)" and acc = "(None, None)" and xs = vs]
  by (simp add: find_next_hop_def find_next_hop_step_def Let_def)

lemma find_next_vehicle_hop_None:
  "find_next_vehicle_hop current target vs = None \<longleftrightarrow>
     (\<forall>e\<in>set vs. \<not> is_forward_progress current (location (snd e)) target)"
  using best_fold [where step = "find_next_vehicle_hop_step current target"
      and P = "\<lambda>e. is_forward_progress current (location (snd e)) target"
      and sc = "\<lambda>e. calculate_vehicle_hop_score current (location (snd e)) target (speed (snd e))"
      and g = "\<lambda>e. location (snd e)" and acc = "(None, None)" and xs = vs]
  by (simp add: find_next_vehicle_hop_def find_next_vehicle_hop_step_def Let_def)

lemma find_next_vehicle_hop_Some:
  "find_next_vehicle_hop current target vs = Some next_hop \<Longrightarrow>
     \<exists>e\<in>set vs. is_forward_progress current (location (snd e)) target \<and>
               next_hop = location (snd e)"
  using best_fold [where step = "find_next_vehicle_hop_step current target"
      and P = "\<lambda>e. is_forward_progress current (location (snd e)) target"
      and sc = "\<lambda>e. calculate_vehicle_hop_score current (location (snd e)) target (speed (snd e))"
      and g = "\<lambda>e. location (snd e)" and acc = "(None, None)" and xs = vs]
  by (simp add: find_next_vehicle_hop_def find_next_vehicle_hop_step_def Let_def)

text \<open>
  The number of snapshots strictly closer to the target than the current position: it
  drops with every accepted hop.
\<close>

lemma closer_count_decreases:
  assumes "e \<in> set vs" and "is_forward_progress current (location (snd e)) target"
  shows "length (filter (\<lambda>v. distance (location (snd v)) target <
                              distance (location (snd e)) target) vs)
         < length (filter (\<lambda>v. distance (location (snd v)) target < distance current target) vs)"
proof -
  let ?P = "\<lambda>v. distance (location (snd v)) target < distance current target"
  let ?Q = "\<lambda>v. distance (location (snd v)) target < distance (location (snd e)) target"
  have closer: "distance (location (snd e)) target < distance current target"
    using assms(2) by (simp add: is_forward_progress_def)
  have "filter ?Q vs = filter ?Q (filter ?P vs)"
    using closer by (auto intro!: filter_cong)
  moreover have "e \<in> set (filter ?P vs)" using assms(1) closer by simp
  moreover have "\<not> ?Q e" by simp
  ultimately show ?thesis
    by (metis length_filter_less)
qed

subsection \<open>Termination of the greedy strategy\<close>

lemma tmr_route_loop_returns:
  "\<exists>hops. tmr_route_loop destination vs td current r = Some (r @ hops) \<and>
          set hops \<subseteq> (\<lambda>e. location (snd e)) ` set vs \<and>
          sorted_wrt (\<lambda>a b. distance b destination < distance a destination) (current # hops) \<and>
          (distance (last (current # hops)) destination \<le> 100 \<or>
           find_next_hop (last (current # hops)) destination vs td = None)"
proof (induction n \<equiv> "length (filter (\<lambda>v. distance (location (snd v)) destination <
                                         distance current destination) vs)"
       arbitrary: current r rule: less_induct)
  case less
  show ?case
  proof (cases "distance current destination > 100")
    case False
    then have "tmr_route_loop destination vs td current r = Some (r @ [])"
      by (subst tmr_route_loop.simps) simp
    with False show ?thesis
      by (intro exI [of _ "[]"]) simp
  next
    case far: True
    show ?thesis
    proof (cases "find_next_hop current destination vs td")
      case None
      with far have "tmr_route_loop destination vs td current r = Some (r @ [])"
        by (subst tmr_route_loop.simps) simp
      with None show ?thesis
        by (intro exI [of _ "[]"]) simp
    next
      case (Some next_hop)
      from find_next_hop_Some [OF Some] obtain e where
        e: "e \<in> set vs" "is_forward_progress current (location (snd e)) destination"
           "next_hop = location (snd e)"
        by blast
      have smaller:
        "length (filter (\<lambda>v. distance (location (snd v)) destination <
                            distance next_hop destination) vs)
         < length (filter (\<lambda>v. distance (location (snd v)) destination <
                              distance current destination) vs)"
        unfolding e(3) by (rule closer_count_decreases [OF e(1) e(2)])
      from less [OF smaller, of "r @ [next_hop]"] obtain hops where
        h: "tmr_route_loop destination vs td next_hop (r @ [next_hop]) =
              Some ((r @ [next_hop]) @ hops)"
           "set hops \<subseteq> (\<lambda>e. location (snd e)) ` set vs"
           "sorted_wrt (\<lambda>a b. distance b destination < distance a destination) (next_hop # hops)"
           "distance (last (next_hop # hops)) destination \<le> 100 \<or>
            find_next_hop (last (next_hop # hops)) destination vs td = None"
        by blast
      have step: "tmr_route_loop destination vs td current r =
                  tmr_route_loop destination vs td next_hop (r @ [next_hop])"
        using far Some by (subst tmr_route_loop.simps) simp
      have closer: "distance next_hop destination < distance current destination"
        using e(2,3) by (simp add: is_forward_progress_def)
      have r1: "tmr_route_loop destination vs td current r = Some (r @ (next_hop # hops))"
        using step h(1) by simp
      have r2: "set (next_hop # hops) \<subseteq> (\<lambda>e. location (snd e)) ` set vs"
        using h(2) e(1,3) by auto
      have r3: "sorted_wrt (\<lambda>a b. distance b destination < distance a destination)
                  (current # next_hop # hops)"
        using h(3) closer by (auto intro: less_trans)
      have r4: "distance (last (current # next_hop # hops)) destination \<le> 100 \<or>
                find_next_hop (last (current # next_hop # hops)) destination vs td = None"
        using h(4) by simp
      from r1 r2 r3 r4 show ?thesis by blast
    qed
  qed
qed

lemma tmr_find_route_returns:
  assumes "tmr_route_loop destination vs td source [source] = Some (source # hops)"
  shows "tmr_find_route router source destination vs td =
      (case map_of (tmr_route_cache router) (source, destination) of
         Some cached \<Rightarrow> Some (cached, router)
       | None \<Rightarrow>
           Some (source # hops @ [destination],
                 router\<lparr>tmr_route_cache :=
                   AList.update (source, destination) (source # hops @ [destination])
                     (tmr_route_cache router)\<rparr>))"
  using assms by (simp add: tmr_find_route_def split: option.splits)

text \<open>
  C8. The greedy strategy's \<open>find_route\<close> returns on every input. Its loop yields the
  source followed by hops that are locations of snapshots, each strictly closer to the
  destination than the position before it, and it stops either within 100 m of the
  destination or where no snapshot makes forward progress.
\<close>

theorem tmr_find_route_terminates:
  "\<exists>hops. tmr_route_loop destination vs td source [source] = Some (source # hops) \<and>
          set hops \<subseteq> (\<lambda>e. location (snd e)) ` set vs \<and>
          sorted_wrt (\<lambda>a b. distance b destination < distance a destination) (source # hops) \<and>
          (distance (last (source # hops)) destination \<le> 100 \<or>
           (\<forall>e\<in>set vs. \<not> is_forward_progress (last (source # hops)) (location (snd e))
                            destination)) \<and>
          tmr_find_route router source destination vs td =
            (case map_of (tmr_route_cache router) (source, destination) of
               Some cached \<Rightarrow> Some (cached, router)
             | None \<Rightarrow>
                 Some (source # hops @ [destination],
                       router\<lparr>tmr_route_cache :=
                         AList.update (source, destination) (source # hops @ [destination])
                           (tmr_route_cache router)\<rparr>))"
proof -
  from tmr_route_loop_returns [of destination vs td source "[source]"] obtain hops where
    h: "tmr_route_loop destination vs td source [source] = Some ([source] @ hops)"
       "set hops \<subseteq> (\<lambda>e. location (snd e)) ` set vs"
       "sorted_wrt (\<lambda>a b. distance b destination < distance a destination) (source # hops)"
       "distance (last (source # hops)) destination \<le> 100 \<or>
        find_next_hop (last (source # hops)) destination vs td = None"
    by blast
  from h(1) have l: "tmr_route_loop destination vs td source [source] = Some (source # hops)"
    by simp
  from h(4) have x: "distance (last (source # hops)) destination \<le> 100 \<or>
      (\<forall>e\<in>set vs. \<not> is_forward_progress (last (source # hops)) (location (snd e)) destination)"
    unfolding find_next_hop_None .
  from l h(2) h(3) x tmr_find_route_returns [OF l, of router] show ?thesis
    by blast
qed

lemma far_forward: "is_forward_progress origin east_900 east_1000"
  by (simp add: is_forward_progress_def distance_less_iff origin_def east_900_def east_1000_def)

lemma far_next_hop: "find_next_hop origin east_1000 far_vehicles no_traffic = Some east_900"
  by (simp add: find_next_hop_def find_next_hop_step_def far_vehicles_def far_forward
      exceeds_def Let_def)

lemma far_loop:
  "tmr_route_loop east_1000 far_vehicles no_traffic origin [origin] = Some [origin, east_900]"
proof -
  have a: "distance origin east_1000 > 100"
    by (simp add: distance_gt_iff origin_def east_1000_def)
  have b: "\<not> distance east_900 east_1000 > 100"
    by (simp add: distance_gt_iff east_900_def east_1000_def)
  have "tmr_route_loop east_1000 far_vehicles no_traffic east_900 [origin, east_900] =
        Some [origin, east_900]"
    using b by (subst tmr_route_loop.simps) simp
  then show ?thesis
    using a far_next_hop by (subst tmr_route_loop.simps) simp
qed

theorem tmr_find_route_terminates_witness:
  "\<exists>hops. tmr_route_loop east_1000 far_vehicles no_traffic origin [origin] = Some (origin # hops) \<and>
          hops = [east_900] \<and>
          tmr_find_route \<lparr>tmr_route_cache = []\<rparr> origin east_1000 far_vehicles no_traffic =
            Some ([origin, east_900, east_1000],
                  \<lparr>tmr_route_cache = [((origin, east_1000), [origin, east_900, east_1000])]\<rparr>)"
proof -
  from tmr_find_route_terminates [of east_1000 far_vehicles no_traffic origin
      "\<lparr>tmr_route_cache = []\<rparr>"]
  obtain hops where
    h: "tmr_route_loop east_1000 far_vehicles no_traffic origin [origin] = Some (origin # hops)"
       "tmr_find_route \<lparr>tmr_route_cache = []\<rparr> origin east_1000 far_vehicles no_traffic =
            (case map_of (tmr_route_cache \<lparr>tmr_route_cache = []\<rparr>) (origin, east_1000) of
               Some cached \<Rightarrow> Some (cached, \<lparr>tmr_route_cache = []\<rparr>)
             | None \<Rightarrow>
                 Some (origin # hops @ [east_1000],
                       \<lparr>tmr_route_cache = []\<rparr>\<lparr>tmr_route_cache :=
                         AList.update (origin, east_1000) (origin # hops @ [east_1000])
                           (tmr_route_cache \<lparr>tmr_route_cache = []\<rparr>)\<rparr>))"
    by blast
  from h(1) far_loop have hops: "hops = [east_900]" by simp
  from h(2) have "tmr_find_route \<lparr>tmr_route_cache = []\<rparr> origin east_1000 far_vehicles no_traffic =
            Some ([origin, east_900, east_1000],
                  \<lparr>tmr_route_cache = [((origin, east_1000), [origin, east_900, east_1000])]\<rparr>)"
    unfolding hops by simp
  with h(1) hops show ?thesis by blast
qed

subsection \<open>Junction-based strategy\<close>

lemma range_step_grid: "range_step 3000 500 = [0, 500, 1000, 1500, 2000, 2500]"
  by (simp add: range_step_def upt_rec)

lemma junctions_at_origin: "get_potential_junctions origin = [origin]"
  by (simp add: get_potential_junctions_def NETWORK_LENGTH_def NETWORK_WIDTH_def
      range_step_grid distance_le_iff MAX_V2V_RANGE_def origin_def)

lemma junctions_at_junction_source: "get_potential_junctions junction_source = [junction_500]"
  by (simp add: get_potential_junctions_def NETWORK_LENGTH_def NETWORK_WIDTH_def
      range_step_grid distance_le_iff MAX_V2V_RANGE_def junction_source_def junction_500_def)

lemma find_next_junction_single:
  "get_potential_junctions current = [j] \<Longrightarrow> find_next_junction current destination vs td = Some j"
  by (simp add: find_next_junction_def find_next_junction_step_def exceeds_def Let_def)

lemma path_to_junction_at_junction:
  "distance current junction \<le> 100 \<Longrightarrow>
     find_path_to_junction current junction vs = Some [current, junction]"
  unfolding find_path_to_junction_def
  by (subst path_to_junction_loop.simps) simp

lemma distance_self: "distance a a = 0"
  by (simp add: distance_def)

text \<open>The inner loop, hopping towards the junction, always returns.\<close>

lemma path_to_junction_loop_returns:
  "\<exists>hops. path_to_junction_loop junction vs current path = Some (path @ hops)"
proof (induction n \<equiv> "length (filter (\<lambda>v. distance (location (snd v)) junction <
                                         distance current junction) vs)"
       arbitrary: current path rule: less_induct)
  case less
  show ?case
  proof (cases "distance current junction > 100")
    case False
    then have "path_to_junction_loop junction vs current path = Some (path @ [])"
      by (subst path_to_junction_loop.simps) simp
    then show ?thesis by blast
  next
    case far: True
    show ?thesis
    proof (cases "find_next_vehicle_hop current junction vs")
      case None
      with far have "path_to_junction_loop junction vs current path = Some (path @ [])"
        by (subst path_to_junction_loop.simps) simp
      then show ?thesis by blast
    next
      case (Some next_hop)
      from find_next_vehicle_hop_Some [OF Some] obtain e where
        e: "e \<in> set vs" "is_forward_progress current (location (snd e)) junction"
           "next_hop = location (snd e)"
        by blast
      have smaller:
        "length (filter (\<lambda>v. distance (location (snd v)) junction <
                            distance next_hop junction) vs)
         < length (filter (\<lambda>v. distance (location (snd v)) junction <
                              distance current junction) vs)"
        unfolding e(3) by (rule closer_count_decreases [OF e(1) e(2)])
      from less [OF smaller, of "path @ [next_hop]"] obtain hops where
        h: "path_to_junction_loop junction vs next_hop (path @ [next_hop]) =
              Some ((path @ [next_hop]) @ hops)"
        by blast
      have "path_to_junction_loop junction vs current path =
            path_to_junction_loop junction vs next_hop (path @ [next_hop])"
        using far Some by (subst path_to_junction_loop.simps) simp
      with h have "path_to_junction_loop junction vs current path = Some (path @ (next_hop # hops))"
        by simp
      then show ?thesis by blast
    qed
  qed
qed

text \<open>
  Standing on a grid junction more than 100 m from the destination, the only junction
  within range is that junction itself (the grid spacing is 500 m, the range 300 m), so
  one round of the outer loop leads back to the same position with a longer route.
\<close>

lemma gytar_route_loop_round_at_origin:
  "gytar_route_loop east_1000 vs td origin r =
   gytar_route_loop east_1000 vs td origin (r @ [origin, origin])"
proof -
  have far: "distance origin east_1000 > 100"
    by (simp add: distance_gt_iff origin_def east_1000_def)
  have j: "find_next_junction origin east_1000 vs td = Some origin"
    by (rule find_next_junction_single [OF junctions_at_origin])
  have p: "find_path_to_junction origin origin vs = Some [origin, origin]"
    by (rule path_to_junction_at_junction) (simp add: distance_self)
  show ?thesis
    by (subst gytar_route_loop.simps) (simp add: far j p)
qed

lemma gytar_route_loop_never_returns_at_origin:
  "gytar_route_loop east_1000 vs td origin r = None"
proof (rule ccontr)
  assume "gytar_route_loop east_1000 vs td origin r \<noteq> None"
  then obtain y where y: "gytar_route_loop east_1000 vs td origin r = Some y"
    by blast
  have "\<not> (east_1000 = east_1000 \<and> origin = origin)"
  proof (rule gytar_route_loop.raw_induct
      [where P = "\<lambda>destination vs td current_pos r y.
                    \<not> (destination = east_1000 \<and> current_pos = origin)", OF _ y])
    fix loop :: "location \<Rightarrow> vehicles \<Rightarrow> traffic_data \<Rightarrow> location \<Rightarrow> route \<Rightarrow> route option"
      and destination vs td current_pos r y
    assume IH: "\<And>a b c d e z. loop a b c d e = Some z \<Longrightarrow> \<not> (a = east_1000 \<and> d = origin)"
      and body: "(if 100 < distance current_pos destination
          then case find_next_junction current_pos destination vs td of
                 None \<Rightarrow> Some r
               | Some next_junction \<Rightarrow>
                   (case find_path_to_junction current_pos next_junction vs of
                      None \<Rightarrow> None
                    | Some path_to_junction \<Rightarrow>
                        loop destination vs td next_junction (r @ path_to_junction))
          else Some r) = Some y"
    show "\<not> (destination = east_1000 \<and> current_pos = origin)"
    proof
      assume eq: "destination = east_1000 \<and> current_pos = origin"
      have far: "distance origin east_1000 > 100"
        by (simp add: distance_gt_iff origin_def east_1000_def)
      have j: "find_next_junction origin east_1000 vs td = Some origin"
        by (rule find_next_junction_single [OF junctions_at_origin])
      have p: "find_path_to_junction origin origin vs = Some [origin, origin]"
        by (rule path_to_junction_at_junction) (simp add: distance_self)
      from body eq far j p
      have "loop east_1000 vs td origin (r @ [origin, origin]) = Some y"
        by simp
      from IH [OF this] show False by simp
    qed
  qed
  then show False by simp
qed

text \<open>
  C3 (what the code does). From the source (0,0) to the destination (1000,0), with any
  neighbours and any traffic summary, the junction-based \<open>find_route\<close> never returns.
\<close>

theorem gytar_find_route_diverges:
  "gytar_find_route \<lparr>gytar_route_cache = []\<rparr> origin east_1000 vs td = None"
  by (simp add: gytar_find_route_def gytar_route_loop_never_returns_at_origin)

subsection \<open>Range of the hops\<close>

lemma every_hop_in_range_snoc:
  "every_hop_in_range (p @ [x]) \<longleftrightarrow>
     every_hop_in_range p \<and> (p = [] \<or> distance (last p) x \<le> MAX_V2V_RANGE)"
  by (induction p rule: every_hop_in_range.induct) auto

lemma every_hop_in_range_nth:
  "every_hop_in_range r \<Longrightarrow> i + 1 < length r \<Longrightarrow> distance (r ! i) (r ! (i + 1)) \<le> MAX_V2V_RANGE"
proof (induction r arbitrary: i rule: every_hop_in_range.induct)
  case (1 a b rest)
  then show ?case by (cases i) auto
qed auto

lemma every_hop_imp_hops_in_range: "every_hop_in_range r \<Longrightarrow> hops_in_range r"
  unfolding hops_in_range_def using every_hop_in_range_nth by fastforce

lemma hops_in_range_two: "hops_in_range [a, b]"
  by (simp add: hops_in_range_def)

lemma snd_set_update: "snd ` set (AList.update k v al) \<subseteq> insert v (snd ` set al)"
  by (induction al) auto

lemma update_preserves:
  "\<forall>r\<in>snd ` set al. P r \<Longrightarrow> P v \<Longrightarrow> \<forall>r\<in>snd ` set (AList.update k v al). P r"
  by (induction al) auto

lemma set_update: "set (AList.update k v al) \<subseteq> insert (k, v) (set al)"
  by (induction al) auto

lemma set_delete: "set (AList.delete k al) \<subseteq> set al"
  by (auto simp: AList.delete_eq)

subsection \<open>Flood discovery\<close>

text \<open>
  Every queue entry holds a non-empty path that ends at the entry's location and whose
  hops are all in range.
\<close>

lemma expand_step_queue:
  assumes "\<forall>q\<in>set (fst st). snd q \<noteq> [] \<and> last (snd q) = fst q \<and> every_hop_in_range (snd q)"
    and "path \<noteq> []" and "last path = current" and "every_hop_in_range path"
  shows "\<forall>q\<in>set (fst (expand_step current path e st)).
           snd q \<noteq> [] \<and> last (snd q) = fst q \<and> every_hop_in_range (snd q)"
  using assms by (auto simp: expand_step_def Let_def every_hop_in_range_snoc)

lemma expand_fold_queue:
  assumes "\<forall>q\<in>set (fst st). snd q \<noteq> [] \<and> last (snd q) = fst q \<and> every_hop_in_range (snd q)"
    and "path \<noteq> []" and "last path = current" and "every_hop_in_range path"
  shows "\<forall>q\<in>set (fst (fold (expand_step current path) xs st)).
           snd q \<noteq> [] \<and> last (snd q) = fst q \<and> every_hop_in_range (snd q)"
  using assms(1)
proof (induction xs arbitrary: st)
  case Nil
  then show ?case by simp
next
  case (Cons e xs)
  have "\<forall>q\<in>set (fst (expand_step current path e st)).
           snd q \<noteq> [] \<and> last (snd q) = fst q \<and> every_hop_in_range (snd q)"
    by (rule expand_step_queue [OF Cons.prems assms(2-4)])
  from Cons.IH [OF this] show ?case by simp
qed

text \<open>
  The measure of the flood: the queue length plus twice the number of snapshot
  locations not yet visited.
\<close>

lemma expand_step_measure:
  assumes "finite L" and "location (snd e) \<in> L"
  shows "length (fst (expand_step current path e st)) +
           2 * card (L - snd (expand_step current path e st))
         \<le> length (fst st) + 2 * card (L - snd st)"
proof (cases "location (snd e) \<notin> snd st \<and> distance current (location (snd e)) \<le> MAX_V2V_RANGE")
  case True
  then have in_diff: "location (snd e) \<in> L - snd st" using assms(2) by simp
  have "finite (L - snd st)" using assms(1) by simp
  with in_diff have pos: "0 < card (L - snd st)"
    by (auto simp: card_gt_0_iff)
  have "card (L - insert (location (snd e)) (snd st)) = card (L - snd st) - 1"
    using True assms(2) by simp
  with pos True show ?thesis
    by (simp add: expand_step_def Let_def)
next
  case False
  then show ?thesis by (auto simp: expand_step_def Let_def)
qed

lemma expand_fold_measure:
  assumes "finite L" and "(\<lambda>e. location (snd e)) ` set xs \<subseteq> L"
  shows "length (fst (fold (expand_step current path) xs st)) +
           2 * card (L - snd (fold (expand_step current path) xs st))
         \<le> length (fst st) + 2 * card (L - snd st)"
  using assms(2)
proof (induction xs arbitrary: st)
  case Nil
  then show ?case by simp
next
  case (Cons e xs)
  from Cons.prems have e: "location (snd e) \<in> L" and xs: "(\<lambda>e. location (snd e)) ` set xs \<subseteq> L"
    by auto
  from Cons.IH [OF xs, of "expand_step current path e st"]
    expand_step_measure [OF assms(1) e, of current path st]
  show ?case by simp
qed

lemma discover_loop_returns:
  assumes "\<forall>q\<in>set queue. snd q \<noteq> [] \<and> last (snd q) = fst q \<and> every_hop_in_range (snd q)"
    and "\<forall>r\<in>snd ` set discovered. every_hop_in_range r \<and> 2 \<le> length r"
  shows "\<exists>found. discover_loop destination vs queue visited discovered = Some found \<and>
           (\<forall>r\<in>snd ` set found. every_hop_in_range r \<and> 2 \<le> length r)"
  using assms
proof (induction n \<equiv> "length queue + 2 * card ((\<lambda>e. location (snd e)) ` set vs - visited)"
       arbitrary: queue visited discovered rule: less_induct)
  case less
  let ?L = "(\<lambda>e. location (snd e)) ` set vs"
  show ?case
  proof (cases queue)
    case Nil
    then have "discover_loop destination vs queue visited discovered = Some discovered"
      by (subst discover_loop.simps) simp
    with less.prems(2) show ?thesis by blast
  next
    case (Cons entry rest)
    from less.prems(1) Cons have
      entry: "snd entry \<noteq> []" "last (snd entry) = fst entry" "every_hop_in_range (snd entry)"
      and rest: "\<forall>q\<in>set rest. snd q \<noteq> [] \<and> last (snd q) = fst q \<and> every_hop_in_range (snd q)"
      by auto
    show ?thesis
    proof (cases "distance (fst entry) destination \<le> MAX_V2V_RANGE")
      case True
      let ?route = "snd entry @ [destination]"
      have "every_hop_in_range ?route"
        unfolding every_hop_in_range_snoc using entry True by simp
      moreover have "2 \<le> length ?route"
        using entry(1) by (cases "snd entry") simp_all
      ultimately have good: "every_hop_in_range ?route \<and> 2 \<le> length ?route" ..
      have d': "\<forall>r\<in>snd ` set (AList.update ?route ?route discovered).
                  every_hop_in_range r \<and> 2 \<le> length r"
        by (rule update_preserves [OF less.prems(2) good])
      have smaller: "length rest + 2 * card (?L - visited) < length queue + 2 * card (?L - visited)"
        using Cons by simp
      from less.hyps [OF smaller rest d'] obtain found where
        f: "discover_loop destination vs rest visited (AList.update ?route ?route discovered) =
              Some found"
           "\<forall>r\<in>snd ` set found. every_hop_in_range r \<and> 2 \<le> length r"
        by blast
      have "discover_loop destination vs queue visited discovered =
            discover_loop destination vs rest visited (AList.update ?route ?route discovered)"
        using Cons True by (subst discover_loop.simps) simp
      then show ?thesis unfolding f(1) using f(2) by blast
    next
      case False
      let ?st = "fold (expand_step (fst entry) (snd entry)) vs (rest, visited)"
      have q': "\<forall>q\<in>set (fst ?st). snd q \<noteq> [] \<and> last (snd q) = fst q \<and> every_hop_in_range (snd q)"
        by (rule expand_fold_queue) (use rest entry in simp_all)
      have "length (fst ?st) + 2 * card (?L - snd ?st) \<le>
            length (fst (rest, visited)) + 2 * card (?L - snd (rest, visited))"
        by (rule expand_fold_measure) simp_all
      then have smaller: "length (fst ?st) + 2 * card (?L - snd ?st) <
                          length queue + 2 * card (?L - visited)"
        using Cons by simp
      from less.hyps [OF smaller q' less.prems(2)] obtain found where
        f: "discover_loop destination vs (fst ?st) (snd ?st) discovered = Some found"
           "\<forall>r\<in>snd ` set found. every_hop_in_range r \<and> 2 \<le> length r"
        by blast
      have "discover_loop destination vs queue visited discovered =
            discover_loop destination vs (fst ?st) (snd ?st) discovered"
        using Cons False by (subst discover_loop.simps) simp
      then show ?thesis unfolding f(1) using f(2) by blast
    qed
  qed
qed

lemma select_best_route_member:
  "select_best_route routes vs = Some r \<Longrightarrow> r = [] \<or> r \<in> set routes"
proof (cases "routes = []")
  case True
  assume "select_best_route routes vs = Some r"
  with True show ?thesis by (simp add: select_best_route_def)
next
  case False
  assume s: "select_best_route routes vs = Some r"
  have step: "select_best_route_step vs e best =
      (if calculate_route_score e vs \<noteq> None
       then (if exceeds (the (calculate_route_score e vs)) (fst best)
             then (Some (the (calculate_route_score e vs)), Some e) else best)
       else best)" for e best
    by (simp add: select_best_route_step_def split: option.splits)
  from best_fold [where step = "select_best_route_step vs"
      and P = "\<lambda>e. calculate_route_score e vs \<noteq> None"
      and sc = "\<lambda>e. the (calculate_route_score e vs)" and g = "\<lambda>e. e"
      and acc = "(None, None)" and xs = routes, OF step]
  have "\<forall>r. snd (fold (select_best_route_step vs) routes (None, None)) = Some r \<longrightarrow>
          (\<exists>e\<in>set routes. calculate_route_score e vs \<noteq> None \<and> r = e)"
    by simp
  with s False show ?thesis by (auto simp: select_best_route_def)
qed

lemma discover_route_returns:
  "\<exists>found. discover_route source destination vs = Some found \<and>
     (\<forall>w ws. found = Some (w # ws) \<longrightarrow> every_hop_in_range (w # ws))"
proof -
  have q: "\<forall>q\<in>set [(source, [source])].
            snd q \<noteq> [] \<and> last (snd q) = fst q \<and> every_hop_in_range (snd q)"
    by simp
  have d: "\<forall>r\<in>snd ` set ([] :: (route \<times> route) list). every_hop_in_range r \<and> 2 \<le> length r"
    by simp
  from discover_loop_returns [OF q d, of destination vs "{source}"] obtain found where
    f: "discover_loop destination vs [(source, [source])] {source} [] = Some found"
       "\<forall>r\<in>snd ` set found. every_hop_in_range r \<and> 2 \<le> length r"
    by blast
  have "every_hop_in_range (w # ws)"
    if "select_best_route (map snd found) vs = Some (w # ws)" for w ws
    using select_best_route_member [OF that] f(2) by auto
  with f(1) show ?thesis
    by (simp add: discover_route_def)
qed

lemma aodv_find_route_cases:
  assumes "\<forall>entry\<in>set (aodv_route_cache router). hops_in_range (snd entry)"
    and "discover_route source destination vs = Some found"
    and "\<forall>w ws. found = Some (w # ws) \<longrightarrow> every_hop_in_range (w # ws)"
  shows "\<exists>r router'. aodv_find_route router source destination vs td = Some (r, router') \<and>
           hops_in_range r \<and>
           (\<forall>entry\<in>set (aodv_route_cache router'). hops_in_range (snd entry))"
proof (cases "map_of (aodv_route_cache router) (source, destination) \<noteq> None \<and>
              is_route_valid (the (map_of (aodv_route_cache router) (source, destination))) vs")
  case True
  then obtain cached where
    c: "map_of (aodv_route_cache router) (source, destination) = Some cached"
    by blast
  then have "((source, destination), cached) \<in> set (aodv_route_cache router)"
    by (rule map_of_SomeD)
  with assms(1) have "hops_in_range cached" by fastforce
  moreover have "aodv_find_route router source destination vs td = Some (cached, router)"
    using True c by (simp add: aodv_find_route_def Let_def)
  ultimately show ?thesis using assms(1) by blast
next
  case False
  define cache1 where "cache1 =
    (if map_of (aodv_route_cache router) (source, destination) \<noteq> None
     then AList.delete (source, destination) (aodv_route_cache router)
     else aodv_route_cache router)"
  have sub: "set cache1 \<subseteq> set (aodv_route_cache router)"
    unfolding cache1_def using set_delete [of "(source, destination)" "aodv_route_cache router"]
    by simp
  with assms(1) have c1: "\<forall>entry\<in>set cache1. hops_in_range (snd entry)"
    by blast
  show ?thesis
  proof (cases "\<exists>w ws. found = Some (w # ws)")
    case True
    then obtain w ws where f: "found = Some (w # ws)" by blast
    with assms(3) have good: "hops_in_range (w # ws)"
      by (simp add: every_hop_imp_hops_in_range)
    have res: "aodv_find_route router source destination vs td =
          Some (w # ws,
                router\<lparr>aodv_route_cache := AList.update (source, destination) (w # ws) cache1\<rparr>)"
      using False assms(2) f unfolding aodv_find_route_def Let_def cache1_def
      by auto
    have "\<forall>entry\<in>set (AList.update (source, destination) (w # ws) cache1).
            hops_in_range (snd entry)"
      using set_update [of "(source, destination)" "w # ws" cache1] c1 good by fastforce
    with res good show ?thesis by simp
  next
    case no: False
    have res: "aodv_find_route router source destination vs td =
          Some ([source, destination], router\<lparr>aodv_route_cache := cache1\<rparr>)"
    proof (cases found)
      case None
      then show ?thesis
        using False assms(2) unfolding aodv_find_route_def Let_def cache1_def
        by auto
    next
      case (Some r)
      with no have "r = []" by (cases r) auto
      with Some show ?thesis
        using False assms(2) unfolding aodv_find_route_def Let_def cache1_def
        by auto
    qed
    with c1 hops_in_range_two [of source destination] show ?thesis by simp
  qed
qed

text \<open>
  C2 as stated fails for the greedy and the junction-based strategy: neither selects
  its vehicle hops by range. The greedy route from (0,0) to (1000,0) past a neighbour
  at (900,0) starts with a 900 m hop; the junction-based route from (320,0) towards
  the junction (500,0) past a neighbour at (650,0) contains a 330 m hop.
\<close>

theorem hops_in_range_counterexample:
  "tmr_find_route \<lparr>tmr_route_cache = []\<rparr> origin east_1000 far_vehicles no_traffic =
     Some ([origin, east_900, east_1000],
           \<lparr>tmr_route_cache = [((origin, east_1000), [origin, east_900, east_1000])]\<rparr>) \<and>
   \<not> hops_in_range [origin, east_900, east_1000] \<and>
   gytar_find_route \<lparr>gytar_route_cache = []\<rparr> junction_source junction_destination
       junction_vehicles no_traffic =
     Some ([junction_source, junction_source, east_650, junction_500, junction_destination],
           \<lparr>gytar_route_cache =
              [((junction_source, junction_destination),
                [junction_source, junction_source, east_650, junction_500,
                 junction_destination])]\<rparr>) \<and>
   \<not> hops_in_range [junction_source, junction_source, east_650, junction_500,
                    junction_destination]"
proof -
  have t1: "tmr_find_route \<lparr>tmr_route_cache = []\<rparr> origin east_1000 far_vehicles no_traffic =
     Some ([origin, east_900, east_1000],
           \<lparr>tmr_route_cache = [((origin, east_1000), [origin, east_900, east_1000])]\<rparr>)"
    by (simp add: tmr_find_route_def far_loop)
  have "\<not> distance origin east_900 \<le> MAX_V2V_RANGE"
    by (simp add: distance_le_iff MAX_V2V_RANGE_def origin_def east_900_def)
  then have t2: "\<not> hops_in_range [origin, east_900, east_1000]"
    unfolding hops_in_range_def by (auto intro!: exI [of _ 0])
  have far: "distance junction_source junction_destination > 100"
    by (simp add: distance_gt_iff junction_source_def junction_destination_def)
  have near: "\<not> distance junction_500 junction_destination > 100"
    by (simp add: distance_gt_iff junction_500_def junction_destination_def)
  have j: "find_next_junction junction_source junction_destination junction_vehicles no_traffic =
           Some junction_500"
    by (rule find_next_junction_single [OF junctions_at_junction_source])
  have d1: "distance junction_source junction_500 > 100"
    by (simp add: distance_gt_iff junction_source_def junction_500_def)
  have d2: "distance east_650 junction_500 > 100"
    by (simp add: distance_gt_iff east_650_def junction_500_def)
  have h1: "find_next_vehicle_hop junction_source junction_500 junction_vehicles = Some east_650"
    by (simp add: find_next_vehicle_hop_def find_next_vehicle_hop_step_def junction_vehicles_def
        is_forward_progress_def distance_less_iff exceeds_def Let_def
        junction_source_def junction_500_def east_650_def)
  have h2: "find_next_vehicle_hop east_650 junction_500 junction_vehicles = None"
    by (simp add: find_next_vehicle_hop_def find_next_vehicle_hop_step_def junction_vehicles_def
        is_forward_progress_def)
  have p2: "path_to_junction_loop junction_500 junction_vehicles east_650
              [junction_source, east_650] = Some [junction_source, east_650]"
    using d2 h2 by (subst path_to_junction_loop.simps) simp
  have p1: "path_to_junction_loop junction_500 junction_vehicles junction_source
              [junction_source] = Some [junction_source, east_650]"
    using d1 h1 p2 by (subst path_to_junction_loop.simps) simp
  have p: "find_path_to_junction junction_source junction_500 junction_vehicles =
           Some [junction_source, east_650, junction_500]"
    by (simp add: find_path_to_junction_def p1)
  have l2: "gytar_route_loop junction_destination junction_vehicles no_traffic junction_500
              [junction_source, junction_source, east_650, junction_500] =
            Some [junction_source, junction_source, east_650, junction_500]"
    using near by (subst gytar_route_loop.simps) simp
  have l1: "gytar_route_loop junction_destination junction_vehicles no_traffic junction_source
              [junction_source] =
            Some [junction_source, junction_source, east_650, junction_500]"
    using far j p l2 by (subst gytar_route_loop.simps) simp
  have g1: "gytar_find_route \<lparr>gytar_route_cache = []\<rparr> junction_source junction_destination
       junction_vehicles no_traffic =
     Some ([junction_source, junction_source, east_650, junction_500, junction_destination],
           \<lparr>gytar_route_cache =
              [((junction_source, junction_destination),
                [junction_source, junction_source, east_650, junction_500,
                 junction_destination])]\<rparr>)"
    by (simp add: gytar_find_route_def l1)
  have "\<not> distance junction_source east_650 \<le> MAX_V2V_RANGE"
    by (simp add: distance_le_iff MAX_V2V_RANGE_def junction_source_def east_650_def)
  then have g2: "\<not> hops_in_range [junction_source, junction_source, east_650, junction_500,
                    junction_destination]"
    unfolding hops_in_range_def by (auto intro!: exI [of _ 1])
  from t1 t2 g1 g2 show ?thesis by blast
qed

text \<open>
  C2 (amended). For the flood-discovery strategy, starting from a cache whose routes
  have every consecutive pair except possibly the last within \<open>MAX_V2V_RANGE\<close> (the
  empty cache to begin with), \<open>find_route\<close> returns, its path has that property, and
  so has every route of the cache it leaves behind.
\<close>

theorem aodv_find_route_in_range:
  assumes "\<forall>entry\<in>set (aodv_route_cache router). hops_in_range (snd entry)"
  shows "\<exists>r router'. aodv_find_route router source destination vs td = Some (r, router') \<and>
           hops_in_range r \<and>
           (\<forall>entry\<in>set (aodv_route_cache router'). hops_in_range (snd entry))"
proof -
  from discover_route_returns [of source destination vs] obtain found where
    "discover_route source destination vs = Some found"
    "\<forall>w ws. found = Some (w # ws) \<longrightarrow> every_hop_in_range (w # ws)"
    by blast
  then show ?thesis by (rule aodv_find_route_cases [OF assms])
qed

lemma select_best_route_single:
  "2 \<le> length r \<Longrightarrow> select_best_route [r] vs = Some r"
  by (simp add: select_best_route_def select_best_route_step_def calculate_route_score_def
      exceeds_def)

lemma relay_discover:
  "discover_route origin junction_500 relay_vehicles = Some (Some [origin, east_250, junction_500])"
proof -
  have far: "\<not> distance origin junction_500 \<le> MAX_V2V_RANGE"
    by (simp add: distance_le_iff MAX_V2V_RANGE_def origin_def junction_500_def)
  have near: "distance east_250 junction_500 \<le> MAX_V2V_RANGE"
    by (simp add: distance_le_iff MAX_V2V_RANGE_def east_250_def junction_500_def)
  have reach: "distance origin east_250 \<le> MAX_V2V_RANGE"
    by (simp add: distance_le_iff MAX_V2V_RANGE_def origin_def east_250_def)
  have new: "east_250 \<noteq> origin"
    by (simp add: east_250_def origin_def)
  have ex: "fold (expand_step origin [origin]) relay_vehicles ([], {origin}) =
            ([(east_250, [origin, east_250])], {east_250, origin})"
    by (simp add: relay_vehicles_def expand_step_def Let_def reach new)
  have s3: "discover_loop junction_500 relay_vehicles [] {east_250, origin}
              [([origin, east_250, junction_500], [origin, east_250, junction_500])] =
            Some [([origin, east_250, junction_500], [origin, east_250, junction_500])]"
    by (subst discover_loop.simps) simp
  have s2: "discover_loop junction_500 relay_vehicles [(east_250, [origin, east_250])]
              {east_250, origin} [] =
            Some [([origin, east_250, junction_500], [origin, east_250, junction_500])]"
    using near s3 by (subst discover_loop.simps) simp
  have s1: "discover_loop junction_500 relay_vehicles [(origin, [origin])] {origin} [] =
            Some [([origin, east_250, junction_500], [origin, east_250, junction_500])]"
    using far ex s2 by (subst discover_loop.simps) simp
  show ?thesis
    by (simp add: discover_route_def s1 select_best_route_single)
qed

theorem aodv_find_route_in_range_witness:
  "\<exists>r router'.
     aodv_find_route \<lparr>aodv_route_cache = []\<rparr> origin junction_500 relay_vehicles no_traffic =
       Some (r, router') \<and>
     r = [origin, east_250, junction_500] \<and>
     router' = \<lparr>aodv_route_cache = [((origin, junction_500), [origin, east_250, junction_500])]\<rparr> \<and>
     hops_in_range r"
proof -
  have empty: "\<forall>entry\<in>set (aodv_route_cache \<lparr>aodv_route_cache = []\<rparr>). hops_in_range (snd entry)"
    by simp
  from aodv_find_route_in_range [OF empty, of origin junction_500 relay_vehicles no_traffic]
  obtain r router' where
    a: "aodv_find_route \<lparr>aodv_route_cache = []\<rparr> origin junction_500 relay_vehicles no_traffic =
          Some (r, router')"
       "hops_in_range r"
    by blast
  have "aodv_find_route \<lparr>aodv_route_cache = []\<rparr> origin junction_500 relay_vehicles no_traffic =
        Some ([origin, east_250, junction_500],
              \<lparr>aodv_route_cache = [((origin, junction_500), [origin, east_250, junction_500])]\<rparr>)"
    by (simp add: aodv_find_route_def relay_discover)
  with a show ?thesis by simp
qed

end
